(* ===== verification/Prelude.thy ===== *)
theory Prelude
  imports Main "HOL-Library.Word"
begin

text \<open>
  What every component shares: the names of the C++ types of the program, the object
  representation of the fixed-width integers that the code copies with \<open>memcpy\<close> and
  \<open>reinterpret_cast\<close>, the decimal output of \<open>std::ostream\<close>, C strings, and the generic
  facts on lists and maps that the component proofs rest on.

  A \<open>std::string\<close>, a \<open>char\<close> buffer and a LevelDB slice are all a \<open>string\<close>: HOL's \<open>char\<close>
  has exactly the 256 values of a byte.  Integers are stored little-endian, as on the
  64-bit hosts the build accepts (CMakeLists.txt refuses other word sizes).
\<close>

named_theorems codec_simps \<open>evaluation of the byte representations\<close>

section \<open>Types of the program\<close>

type_synonym num_id = "64 word"
type_synonym failure_idx = "32 word"
type_synonym kv_pair = "num_id \<times> string"

section \<open>Signed machine integers\<close>

definition max_num_id :: num_id where
  "max_num_id = 0x7FFFFFFFFFFFFFFF"

definition max_failure_idx :: failure_idx where
  "max_failure_idx = 0x7FFFFFFF"

lemma sint_max_num_id [simp]: "sint max_num_id = 2 ^ 63 - 1"
  by (simp add: max_num_id_def)

lemma sint_max_failure_idx [simp]: "sint max_failure_idx = 2 ^ 31 - 1"
  by (simp add: max_failure_idx_def)

lemma sint_num_id_range: "- (2 ^ 63) \<le> sint (w :: num_id)" "sint (w :: num_id) < 2 ^ 63"
  using sint_range_size [of w] by (simp_all add: word_size)

lemma sint_failure_idx_range:
  "- (2 ^ 31) \<le> sint (w :: failure_idx)" "sint (w :: failure_idx) < 2 ^ 31"
  using sint_range_size [of w] by (simp_all add: word_size)

lemma sint_eq_max_num_id_iff: "sint w = 2 ^ 63 - 1 \<longleftrightarrow> w = max_num_id"
  by (metis sint_max_num_id signed_word_eqI)

lemma sint_eq_max_failure_idx_iff: "sint w = 2 ^ 31 - 1 \<longleftrightarrow> w = max_failure_idx"
  by (metis sint_max_failure_idx signed_word_eqI)

lemma sint_num_id_plus_1:
  assumes "w \<noteq> max_num_id"
  shows "sint (w + 1 :: num_id) = sint w + 1"
proof -
  have "sint w \<noteq> 2 ^ 63 - 1" using assms sint_eq_max_num_id_iff by blast
  then have "sint w + 1 < 2 ^ 63" using sint_num_id_range(2) [of w] by linarith
  then show ?thesis
    using sint_num_id_range(1) [of w]
    by (simp add: sint_word_ariths signed_take_bit_int_eq_self)
qed

lemma sint_failure_idx_plus_1:
  assumes "w \<noteq> max_failure_idx"
  shows "sint (w + 1 :: failure_idx) = sint w + 1"
proof -
  have "sint w \<noteq> 2 ^ 31 - 1" using assms sint_eq_max_failure_idx_iff by blast
  then have "sint w + 1 < 2 ^ 31" using sint_failure_idx_range(2) [of w] by linarith
  then show ?thesis
    using sint_failure_idx_range(1) [of w]
    by (simp add: sint_word_ariths signed_take_bit_int_eq_self)
qed

section \<open>Object representation of integers\<close>

text \<open>The \<open>k\<close> bytes of an unsigned number, least significant first, and back.\<close>

fun le_bytes :: "nat \<Rightarrow> nat \<Rightarrow> string" where
  "le_bytes 0 n = []"
| "le_bytes (Suc k) n = char_of n # le_bytes k (n div 256)"

fun le_nat :: "string \<Rightarrow> nat" where
  "le_nat [] = 0"
| "le_nat (c # cs) = of_char c + 256 * le_nat cs"

lemma length_le_bytes [simp]: "length (le_bytes k n) = k"
  by (induction k arbitrary: n) auto

lemma le_nat_le_bytes: "le_nat (le_bytes k n) = n mod 256 ^ k"
proof (induction k arbitrary: n)
  case 0
  show ?case by simp
next
  case (Suc k)
  have "n mod (256 * 256 ^ k) = 256 * (n div 256 mod 256 ^ k) + n mod 256"
    by (simp add: mod_mult2_eq)
  with Suc show ?case by simp
qed

lemma le_nat_less: "le_nat cs < 256 ^ length cs"
proof (induction cs)
  case Nil
  show ?case by simp
next
  case (Cons c cs)
  have "of_char c < (256 :: nat)" by simp
  then have "of_char c + 256 * le_nat cs < 256 * (le_nat cs + 1)" by simp
  also have "\<dots> \<le> 256 * 256 ^ length cs" using Cons by (intro mult_le_mono2) simp
  finally show ?case by simp
qed

lemma le_bytes_le_nat: "le_bytes (length cs) (le_nat cs) = cs"
proof (induction cs)
  case Nil
  show ?case by simp
next
  case (Cons c cs)
  have "(of_char c + 256 * le_nat cs) div 256 = le_nat cs" by simp
  moreover have "char_of (of_char c + 256 * le_nat cs) = c"
    by (simp add: char_of_eq_iff take_bit_eq_mod)
  ultimately show ?case using Cons by simp
qed

definition id_bytes :: "num_id \<Rightarrow> string" where
  "id_bytes w = le_bytes 8 (unat w)"

definition bytes_id :: "string \<Rightarrow> num_id" where
  "bytes_id cs = of_nat (le_nat cs)"

definition u32_bytes :: "32 word \<Rightarrow> string" where
  "u32_bytes w = le_bytes 4 (unat w)"

definition bytes_u32 :: "string \<Rightarrow> 32 word" where
  "bytes_u32 cs = of_nat (le_nat cs)"

lemma length_id_bytes [simp]: "length (id_bytes w) = 8"
  by (simp add: id_bytes_def)

lemma length_u32_bytes [simp]: "length (u32_bytes w) = 4"
  by (simp add: u32_bytes_def)

lemma bytes_id_id_bytes [simp, codec_simps]: "bytes_id (id_bytes w) = w"
proof -
  have "unat w < 256 ^ 8" using unsigned_less [of w, where 'a = nat] by simp
  then show ?thesis by (simp add: bytes_id_def id_bytes_def le_nat_le_bytes)
qed

lemma bytes_u32_u32_bytes [simp, codec_simps]: "bytes_u32 (u32_bytes w) = w"
proof -
  have "unat w < 256 ^ 4" using unsigned_less [of w, where 'a = nat] by simp
  then show ?thesis by (simp add: bytes_u32_def u32_bytes_def le_nat_le_bytes)
qed

lemma id_bytes_bytes_id:
  assumes "length cs = 8"
  shows "id_bytes (bytes_id cs) = cs"
proof -
  have "le_nat cs < 2 ^ 64" using le_nat_less [of cs] assms by simp
  then have "unat (of_nat (le_nat cs) :: num_id) = le_nat cs"
    by (simp add: unsigned_of_nat take_bit_nat_eq_self)
  then show ?thesis
    using le_bytes_le_nat [of cs] assms by (simp add: id_bytes_def bytes_id_def)
qed

lemma id_bytes_inject [simp]: "id_bytes a = id_bytes b \<longleftrightarrow> a = b"
  by (metis bytes_id_id_bytes)

text \<open>\<open>memcpy(&x, src, n)\<close> replaces the first \<open>n\<close> bytes of the object and keeps the rest.\<close>

definition overlay :: "string \<Rightarrow> string \<Rightarrow> string" where
  "overlay got old = got @ drop (length got) old"

lemma overlay_full [simp]: "length old \<le> length got \<Longrightarrow> overlay got old = got"
  by (simp add: overlay_def)

lemma overlay_Nil [simp]: "overlay [] old = old"
  by (simp add: overlay_def)

lemma length_overlay [simp]: "length (overlay got old) = max (length got) (length old)"
  by (simp add: overlay_def)

section \<open>C strings\<close>

text \<open>What a callee that takes \<open>s.c_str()\<close> sees: the bytes before the first NUL.\<close>

definition cstr :: "string \<Rightarrow> string" where
  "cstr s = takeWhile (\<lambda>c. c \<noteq> CHR 0x00) s"

definition nul_free :: "string \<Rightarrow> bool" where
  "nul_free s \<longleftrightarrow> CHR 0x00 \<notin> set s"

lemma cstr_nul_free [simp]: "nul_free s \<Longrightarrow> cstr s = s"
  by (induction s) (auto simp: cstr_def nul_free_def)

lemma nul_free_cstr [simp]: "nul_free (cstr s)"
  by (auto simp: nul_free_def cstr_def dest: set_takeWhileD)

lemma cstr_idem [simp]: "cstr (cstr s) = cstr s"
  by simp

section \<open>Decimal output of the standard streams\<close>

definition digit :: "nat \<Rightarrow> char" where
  "digit n = ''0123456789'' ! n"

fun print_nat :: "nat \<Rightarrow> string" where
  "print_nat n =
     (if n < 10 then [digit n] else print_nat (n div 10) @ [digit (n mod 10)])"

declare print_nat.simps [simp del]

definition print_int :: "int \<Rightarrow> string" where
  "print_int i = (if i < 0 then CHR ''-'' # print_nat (nat (- i)) else print_nat (nat i))"

definition print_id :: "num_id \<Rightarrow> string" where
  "print_id w = print_int (sint w)"

definition decimal_char :: "char \<Rightarrow> bool" where
  "decimal_char c \<longleftrightarrow> c \<in> set ''-0123456789''"

lemma decimal_char_digit: "n < 10 \<Longrightarrow> decimal_char (digit n)"
proof -
  assume "n < 10"
  then have "''0123456789'' ! n \<in> set ''0123456789''" by (intro nth_mem) simp
  then show ?thesis unfolding decimal_char_def digit_def by auto
qed

lemma print_nat_decimal: "\<forall>c \<in> set (print_nat n). decimal_char c"
proof (induction n rule: print_nat.induct)
  case (1 n)
  show ?case
  proof (cases "n < 10")
    case True
    then show ?thesis
      using decimal_char_digit by (simp add: print_nat.simps [of n])
  next
    case False
    with 1 show ?thesis
      using decimal_char_digit [of "n mod 10"] by (auto simp: print_nat.simps [of n])
  qed
qed

lemma decimal_char_minus: "decimal_char (CHR ''-'')"
  by (simp add: decimal_char_def)

lemma print_id_decimal: "c \<in> set (print_id w) \<Longrightarrow> decimal_char c"
  using print_nat_decimal decimal_char_minus
  by (auto simp: print_id_def print_int_def split: if_splits)

lemma print_id_no_tab [simp]: "CHR 0x09 \<notin> set (print_id w)"
proof
  assume "CHR 0x09 \<in> set (print_id w)"
  then have "decimal_char (CHR 0x09)" by (rule print_id_decimal)
  then show False by (simp add: decimal_char_def)
qed

lemma print_id_no_newline [simp]: "CHR 0x0A \<notin> set (print_id w)"
proof
  assume "CHR 0x0A \<in> set (print_id w)"
  then have "decimal_char (CHR 0x0A)" by (rule print_id_decimal)
  then show False by (simp add: decimal_char_def)
qed

section \<open>Maps\<close>

text \<open>The effect of a sequence of \<open>Put\<close>s, later ones first.\<close>

fun put_all :: "('k \<rightharpoonup> 'v) \<Rightarrow> ('k \<times> 'v) list \<Rightarrow> ('k \<rightharpoonup> 'v)" where
  "put_all m [] = m"
| "put_all m ((k, v) # kvs) = put_all (m(k \<mapsto> v)) kvs"

lemma put_all_append [simp]: "put_all m (xs @ ys) = put_all (put_all m xs) ys"
  by (induction xs arbitrary: m) auto

lemma put_all_other: "k \<notin> fst ` set kvs \<Longrightarrow> put_all m kvs k = m k"
  by (induction kvs arbitrary: m) auto

lemma dom_put_all: "dom (put_all m kvs) = dom m \<union> fst ` set kvs"
  by (induction m kvs rule: put_all.induct) (simp_all del: fun_upd_apply add: insert_commute)

lemma ran_put_all: "v \<in> ran (put_all m kvs) \<Longrightarrow> v \<in> ran m \<or> v \<in> snd ` set kvs"
proof (induction m kvs rule: put_all.induct)
  case (1 m)
  then show ?case by simp
next
  case (2 m k v' kvs)
  have "ran (m(k \<mapsto> v')) \<subseteq> insert v' (ran m)" by (auto simp: ran_def)
  with 2 show ?case by (auto simp del: fun_upd_apply)
qed

lemma put_all_map_of:
  "distinct (map fst kvs) \<Longrightarrow> put_all m kvs = m ++ map_of kvs"
proof (induction kvs arbitrary: m)
  case Nil
  show ?case by simp
next
  case (Cons kv kvs)
  obtain k v where kv: "kv = (k, v)" by (cases kv)
  with Cons.prems have "map_of kvs k = None" by (simp add: map_of_eq_None_iff)
  then have "m(k \<mapsto> v) ++ map_of kvs = m ++ (map_of kvs)(k \<mapsto> v)"
    by (auto simp: fun_eq_iff map_add_def split: option.splits)
  with Cons kv show ?case by (simp del: map_add_upd fun_upd_apply)
qed

lemma put_all_mem:
  "distinct (map fst kvs) \<Longrightarrow> (k, v) \<in> set kvs \<Longrightarrow> put_all m kvs k = Some v"
  by (simp add: put_all_map_of)

lemma put_all_dup: "(k, v) \<in> set kvs \<Longrightarrow> distinct (map fst kvs) \<Longrightarrow>
    put_all m (kvs @ [(k, v)]) = put_all m kvs"
  by (simp add: put_all_mem fun_upd_idem)

lemma put_all_inj_map:
  assumes "inj f"
  shows "put_all m (map (\<lambda>(k, v). (f k, v)) kvs) (f x) = put_all (m \<circ> f) kvs x"
proof (induction kvs arbitrary: m)
  case Nil
  show ?case by simp
next
  case (Cons kv kvs)
  obtain k v where kv: "kv = (k, v)" by (cases kv)
  have "(m(f k \<mapsto> v)) \<circ> f = (m \<circ> f)(k \<mapsto> v)"
    using assms by (auto simp: fun_eq_iff inj_eq)
  with Cons.IH [of "m(f k \<mapsto> v)"] kv show ?case by (simp del: o_apply fun_upd_apply)
qed

end
