(* ===== verification/Judy_Array.thy ===== *)
theory Judy_Array
  imports Prelude
begin

text \<open>
  The JudySL array of the Judy library, which is not part of the repository: a parameter of
  the model.  A value of \<open>'j\<close> is what the variable \<open>Pvoid_t data\<close> denotes; the functions are
  the calls that memory_storage.cpp makes, each with the error number that \<open>JU_ERRNO(&err)\<close>
  reads afterwards.  \<open>jsl_view\<close> is no operation: it is the abstract contents that the
  documented contract \<open>judy_ok\<close> speaks about, and no definition of the program uses it.
\<close>

datatype judy_ptr =
    PNull            \<comment> \<open>NULL\<close>
  | PPJErr           \<comment> \<open>PPJERR\<close>
  | PSlot num_id     \<comment> \<open>a pointer to a word, with the word it points to\<close>

record 'j judy =
  jsl_null :: 'j
  JudySLGet :: "'j \<Rightarrow> string \<Rightarrow> int \<times> judy_ptr"
  JudySLIns :: "'j \<Rightarrow> string \<Rightarrow> int \<times> judy_ptr \<times> 'j"
  jsl_store :: "'j \<Rightarrow> string \<Rightarrow> num_id \<Rightarrow> 'j"
  jsl_view :: "'j \<Rightarrow> string \<rightharpoonup> num_id"

text \<open>
  The documented behaviour, for an index that is a C string: \<open>NULL\<close> is the empty array; Get
  finds a present index and returns NULL for an absent one; Ins inserts an absent index with
  value 0 and keeps the value of a present one; an assignment through the returned pointer
  changes the value of that index.
\<close>

definition judy_ok :: "'j judy \<Rightarrow> bool" where
  "judy_ok J \<longleftrightarrow>
     jsl_view J (jsl_null J) = Map.empty \<and>
     (\<forall>a s. nul_free s \<longrightarrow> JudySLGet J a s = (0, PNull) \<longrightarrow> jsl_view J a s = None) \<and>
     (\<forall>a s w. nul_free s \<longrightarrow> JudySLGet J a s = (0, PSlot w) \<longrightarrow> jsl_view J a s = Some w) \<and>
     (\<forall>a s w a'. nul_free s \<longrightarrow> JudySLIns J a s = (0, PSlot w, a') \<longrightarrow>
        jsl_view J a' = (jsl_view J a)(s \<mapsto> (case jsl_view J a s of None \<Rightarrow> 0 | Some v \<Rightarrow> v))) \<and>
     (\<forall>a s w. nul_free s \<longrightarrow> s \<in> dom (jsl_view J a) \<longrightarrow>
        jsl_view J (jsl_store J a s w) = (jsl_view J a)(s \<mapsto> w))"

text \<open>The calls report no error: enough memory, an uncorrupted array.\<close>

definition judy_no_error :: "'j judy \<Rightarrow> bool" where
  "judy_no_error J \<longleftrightarrow>
     (\<forall>a s. JudySLGet J a s = (0, PNull) \<or> (\<exists>w. JudySLGet J a s = (0, PSlot w))) \<and>
     (\<forall>a s. \<exists>w a'. JudySLIns J a s = (0, PSlot w, a'))"

lemma judy_view_null: "judy_ok J \<Longrightarrow> jsl_view J (jsl_null J) = Map.empty"
  by (simp add: judy_ok_def)

lemma judy_get_null:
  "judy_ok J \<Longrightarrow> nul_free s \<Longrightarrow> JudySLGet J a s = (0, PNull) \<Longrightarrow> jsl_view J a s = None"
  by (simp add: judy_ok_def)

lemma judy_get_slot:
  "judy_ok J \<Longrightarrow> nul_free s \<Longrightarrow> JudySLGet J a s = (0, PSlot w) \<Longrightarrow> jsl_view J a s = Some w"
  by (simp add: judy_ok_def)

lemma judy_ins:
  "judy_ok J \<Longrightarrow> nul_free s \<Longrightarrow> JudySLIns J a s = (0, PSlot w, a') \<Longrightarrow>
   jsl_view J a' = (jsl_view J a)(s \<mapsto> (case jsl_view J a s of None \<Rightarrow> 0 | Some v \<Rightarrow> v))"
  unfolding judy_ok_def by blast

lemma judy_store:
  "judy_ok J \<Longrightarrow> nul_free s \<Longrightarrow> s \<in> dom (jsl_view J a) \<Longrightarrow>
   jsl_view J (jsl_store J a s w) = (jsl_view J a)(s \<mapsto> w)"
  by (simp add: judy_ok_def)

section \<open>A concrete array, for the witnesses\<close>

text \<open>An association list satisfies the contract and never fails.\<close>

definition alist_judy :: "(string \<times> num_id) list judy" where
  "alist_judy =
     \<lparr>jsl_null = [],
      JudySLGet = (\<lambda>a s. (0, case map_of a s of None \<Rightarrow> PNull | Some w \<Rightarrow> PSlot w)),
      JudySLIns = (\<lambda>a s. case map_of a s of
                      None \<Rightarrow> (0, PSlot 0, (s, 0) # a)
                    | Some w \<Rightarrow> (0, PSlot w, a)),
      jsl_store = (\<lambda>a s w. (s, w) # a),
      jsl_view = map_of\<rparr>"

lemma alist_judy_ok [simp]: "judy_ok alist_judy"
  by (auto simp: judy_ok_def alist_judy_def fun_eq_iff split: option.splits)

lemma alist_judy_no_error [simp]: "judy_no_error alist_judy"
  by (auto simp: judy_no_error_def alist_judy_def split: option.splits)

end
