(* ===== verification/Exceptions.thy ===== *)
theory Exceptions
  imports Prelude
begin

text \<open>
  exc.hpp: the exception class \<open>Exc\<close> and its message, and the values that stand for the
  ways an operation of the program can end without returning.  Every \<open>THROW_EXC\<close> of the
  sources is a constructor of \<open>exc\<close> with the arguments of its format string, so that the
  branch taken is visible in a theorem; \<open>exc_text\<close> is the formatted text.  Executions that
  leave the C++ standard (a signed overflow, a null dereference, a copy past the end of an
  object, an index out of range) are values of \<open>ub\<close>: they are never given a made-up result.
\<close>

section \<open>Ways of not returning\<close>

datatype exc =
    InitFailed string                \<comment> \<open>DiskStorage::init\<close>
  | WriteFailed string               \<comment> \<open>DiskStorage::write\<close>
  | IterationFailed string           \<comment> \<open>DiskStorage::load_in_memory, DiskStorage::dump\<close>
  | GetFailed string                 \<comment> \<open>DiskStorage::lookup\<close>
  | DbNotInitialized                 \<comment> \<open>DiskStorage::restore\<close>
  | BadDumpLine string string        \<comment> \<open>DiskStorage::restore, text form\<close>
  | BadMagic "32 word" "32 word"     \<comment> \<open>DiskStorage::restore, binary form\<close>
  | MemoryOperationFailed int        \<comment> \<open>JudySLGet in MemoryStorage\<close>
  | MemoryAllocationFailed int       \<comment> \<open>JudySLIns in MemoryStorage\<close>
  | InvalidBatchSize string string   \<comment> \<open>numeratorcli, parse\_cmd\_line\_args\<close>
  | BatchSizeNotPositive             \<comment> \<open>numeratorcli, parse\_cmd\_line\_args\<close>
  | InvalidAddress string            \<comment> \<open>numeratorcli, split\_host\_port\<close>
  | InvalidAddressPort string string \<comment> \<open>numeratorcli, split\_host\_port\<close>
  | CannotOpenFile string            \<comment> \<open>numeratorcli, run\<close>
  | CannotOpenStream string          \<comment> \<open>numimport, main\<close>

datatype ub = SignedOverflow | NullDereference | BufferOverflow | IndexOutOfRange

datatype error = Exc exc | UB ub

section \<open>The text of an exception\<close>

definition print_u32 :: "32 word \<Rightarrow> string" where
  "print_u32 w = print_nat (unat w)"

text \<open>\<open>%s\<close> prints a C string; \<open>%i\<close> and \<open>%u\<close> print decimal numbers.\<close>

fun exc_text :: "exc \<Rightarrow> string" where
  "exc_text (InitFailed s) = ''LevelDB initialization failed: '' @ cstr s"
| "exc_text (WriteFailed s) = ''LevelDB's write method failed: '' @ cstr s"
| "exc_text (IterationFailed s) = ''LevelDB iteration failed: '' @ cstr s"
| "exc_text (GetFailed s) = ''LevelDB's Get method failed: '' @ cstr s"
| "exc_text DbNotInitialized = ''Database wasn't initialized''"
| "exc_text (BadDumpLine what l) = cstr what @ '' at '' @ [CHR 0x22] @ cstr l @ [CHR 0x22]"
| "exc_text (BadMagic got expected) =
     ''Invalid binary dump magic number: '' @ print_u32 got @
     '' (expected '' @ print_u32 expected @ '')''"
| "exc_text (MemoryOperationFailed e) = ''Memory operaton failed, error code: '' @ print_int e"
| "exc_text (MemoryAllocationFailed e) = ''Memory allocation failed, error code: '' @ print_int e"
| "exc_text (InvalidBatchSize arg what) =
     ''Invalid batch size '' @ [CHR 0x27] @ cstr arg @ [CHR 0x27] @ '': '' @ cstr what"
| "exc_text BatchSizeNotPositive = ''batch size has to be >0.''"
| "exc_text (InvalidAddress a) = ''Invalid format of numerator service address: '' @ cstr a"
| "exc_text (InvalidAddressPort a what) =
     ''Invalid format of numerator service address '' @ [CHR 0x27] @ cstr a @ [CHR 0x27] @
     '': '' @ cstr what"
| "exc_text (CannotOpenFile f) = ''couldn't open file '' @ cstr f"
| "exc_text (CannotOpenStream f) =
     ''Couldn't open data stream '' @ [CHR 0x22] @ cstr f @ [CHR 0x22]"

section \<open>Exc::Exc and Exc::what\<close>

text \<open>\<open>strrchr(s, c)\<close>: the position of the last \<open>c\<close> in \<open>s\<close>, or NULL.\<close>

fun strrchr :: "string \<Rightarrow> char \<Rightarrow> nat option" where
  "strrchr [] c = None"
| "strrchr (x # xs) c =
     (case strrchr xs c of
        Some i \<Rightarrow> Some (Suc i)
      | None \<Rightarrow> (if x = c then Some 0 else None))"

definition sanitize_file_name :: "string \<Rightarrow> string" where
  "sanitize_file_name fname =
     (case strrchr fname (CHR ''/'') of
        None \<Rightarrow> fname
      | Some p \<Rightarrow> drop (Suc p) fname)"

text \<open>\<open>snprintf(buf, n, ...)\<close> keeps at most \<open>n - 1\<close> characters of the formatted text.\<close>

definition snprintf :: "nat \<Rightarrow> string \<Rightarrow> string" where
  "snprintf n formatted = take (n - 1) formatted"

definition Exc_what :: "string \<Rightarrow> int \<Rightarrow> string \<Rightarrow> string" where
  "Exc_what fname line formatted =
     (let buff = snprintf 512 formatted
      in snprintf 512 (sanitize_file_name fname @ '':'' @ print_int line @ '' '' @ buff))"

section \<open>Facts\<close>

lemma strrchr_None_iff: "strrchr s c = None \<longleftrightarrow> c \<notin> set s"
  by (induction s) (auto split: option.splits)

lemma strrchr_Some:
  "strrchr s c = Some i \<Longrightarrow> i < length s \<and> s ! i = c \<and> c \<notin> set (drop (Suc i) s)"
proof (induction s arbitrary: i)
  case Nil
  then show ?case by simp
next
  case (Cons x xs)
  then show ?case by (cases "strrchr xs c") (auto simp: strrchr_None_iff split: if_splits)
qed

lemma sanitize_no_slash: "CHR ''/'' \<notin> set (sanitize_file_name s)"
  using strrchr_Some [of s "CHR ''/''"]
  by (auto simp: sanitize_file_name_def strrchr_None_iff split: option.splits)

lemma sanitize_plain: "CHR ''/'' \<notin> set name \<Longrightarrow> sanitize_file_name name = name"
  by (simp add: sanitize_file_name_def strrchr_None_iff [symmetric])

lemma sanitize_dir_name:
  assumes "CHR ''/'' \<notin> set name"
  shows "sanitize_file_name (dir @ ''/'' @ name) = name"
proof -
  have "strrchr (dir @ CHR ''/'' # name) (CHR ''/'') = Some (length dir)"
    using assms by (induction dir) (auto simp: strrchr_None_iff split: option.splits)
  then show ?thesis by (simp add: sanitize_file_name_def)
qed

lemma Exc_what_eq:
  "Exc_what s line text = take 511 (sanitize_file_name s @ '':'' @ print_int line @ '' '' @ text)"
  by (simp add: Exc_what_def snprintf_def Let_def take_Cons')

text \<open>
  C35. The message of an exception raised in \<open>dir/name\<close> shows the bare file name, the line and
  the formatted text, cut to the 511 characters that fit the 512-byte buffer with its NUL:
  the two bounded \<open>snprintf\<close> calls of the constructor never lose more than the one cut at
  the end does, and no directory of the build machine shows.
\<close>

theorem Exc_what_bounded:
  assumes "CHR ''/'' \<notin> set name"
  shows "Exc_what (dir @ ''/'' @ name) line text =
           take 511 (name @ '':'' @ print_int line @ '' '' @ text) \<and>
         length (Exc_what (dir @ ''/'' @ name) line text) \<le> 511"
  unfolding Exc_what_eq sanitize_dir_name [OF assms] by simp

theorem Exc_what_bounded_witness:
  "Exc_what ''/src/disk_storage.cpp'' 40 (exc_text (WriteFailed ''IO error''))
     = ''disk_storage.cpp:40 LevelDB's write method failed: IO error''"
proof -
  have "CHR ''/'' \<notin> set ''disk_storage.cpp''" by simp
  from Exc_what_bounded [OF this, of "''/src''" 40 "exc_text (WriteFailed ''IO error'')"]
  show ?thesis by (simp add: print_int_def print_nat.simps digit_def cstr_def)
qed

end
