(* ===== verification/Memory_Storage.thy ===== *)
theory Memory_Storage
  imports Judy_Array Exceptions
begin

text \<open>
  memory\_storage.hpp and memory\_storage.cpp: the in-memory index from strings to ids.  The
  object keeps the Judy array (\<open>data\<close>) and the pointer of the last insertion (\<open>value\<close>, here
  the index whose word it points to, NULL as \<open>None\<close>).  The operations take the array library
  as their first argument and return the outcome beside the changed object: an exception does
  not undo what was done before it.  The locale \<open>id_index\<close> is what the rest of the program
  relies on, and the interpretation \<open>mem\<close> shows that this class provides it.
\<close>

record 'j memory_storage =
  data :: 'j
  "value" :: "string option"

definition ms_new :: "'j judy \<Rightarrow> 'j memory_storage" where
  "ms_new J = \<lparr>data = jsl_null J, value = None\<rparr>"

definition ms_empty :: "'j judy \<Rightarrow> 'j memory_storage \<Rightarrow> bool" where
  "ms_empty J m \<longleftrightarrow> data m = jsl_null J"

definition ms_unload :: "'j judy \<Rightarrow> 'j memory_storage \<Rightarrow> 'j memory_storage" where
  "ms_unload J m = m\<lparr>data := jsl_null J\<rparr>"

text \<open>
  \<open>find\<close>: the second component is the caller's \<open>counter\<close>, passed by reference.  The slot is
  inserted before the counter is read and incremented, so an overflow leaves the slot behind.
\<close>

definition ms_find ::
  "'j judy \<Rightarrow> string \<Rightarrow> num_id \<Rightarrow> 'j memory_storage \<Rightarrow>
     (error + bool \<times> num_id) \<times> num_id \<times> 'j memory_storage" where
  "ms_find J s counter m =
     (case JudySLGet J (data m) (cstr s) of (err, rv) \<Rightarrow>
        if err \<noteq> 0 then (Inl (Exc (MemoryOperationFailed err)), counter, m)
        else (case rv of
            PPJErr \<Rightarrow> (Inl (Exc (MemoryOperationFailed err)), counter, m)
          | PSlot i \<Rightarrow> (Inr (False, i), counter, m)
          | PNull \<Rightarrow>
              (case JudySLIns J (data m) (cstr s) of (err, rv, data') \<Rightarrow>
                 if err \<noteq> 0 then
                   (Inl (Exc (MemoryAllocationFailed err)), counter, m\<lparr>data := data'\<rparr>)
                 else (case rv of
                     PNull \<Rightarrow> (Inl (Exc (MemoryAllocationFailed err)), counter, m\<lparr>data := data'\<rparr>)
                   | PPJErr \<Rightarrow> (Inl (Exc (MemoryAllocationFailed err)), counter, m\<lparr>data := data'\<rparr>)
                   | PSlot _ \<Rightarrow>
                       if counter = max_num_id then
                         (Inl (UB SignedOverflow), counter,
                          m\<lparr>data := data', value := Some (cstr s)\<rparr>)
                       else
                         (Inr (True, counter), counter + 1,
                          m\<lparr>data := jsl_store J data' (cstr s) counter,
                            value := Some (cstr s)\<rparr>)))))"

definition ms_insert ::
  "'j judy \<Rightarrow> string \<Rightarrow> num_id \<Rightarrow> 'j memory_storage \<Rightarrow>
     (error + unit) \<times> 'j memory_storage" where
  "ms_insert J s i m =
     (case JudySLGet J (data m) (cstr s) of (err, rv) \<Rightarrow>
        if err \<noteq> 0 then (Inl (Exc (MemoryOperationFailed err)), m)
        else (case rv of
            PPJErr \<Rightarrow> (Inl (Exc (MemoryOperationFailed err)), m)
          | PSlot _ \<Rightarrow>
              (Inr (), m\<lparr>data := jsl_store J (data m) (cstr s) i, value := Some (cstr s)\<rparr>)
          | PNull \<Rightarrow>
              (case JudySLIns J (data m) (cstr s) of (err, rv, data') \<Rightarrow>
                 if err \<noteq> 0 then (Inl (Exc (MemoryAllocationFailed err)), m\<lparr>data := data'\<rparr>)
                 else (case rv of
                     PNull \<Rightarrow> (Inl (Exc (MemoryAllocationFailed err)), m\<lparr>data := data'\<rparr>)
                   | PPJErr \<Rightarrow> (Inl (Exc (MemoryAllocationFailed err)), m\<lparr>data := data'\<rparr>)
                   | PSlot _ \<Rightarrow>
                       (Inr (), m\<lparr>data := jsl_store J data' (cstr s) i,
                                  value := Some (cstr s)\<rparr>)))))"

text \<open>The contents of the object, for the specifications.\<close>

definition ms_view :: "'j judy \<Rightarrow> 'j memory_storage \<Rightarrow> string \<rightharpoonup> num_id" where
  "ms_view J m = jsl_view J (data m)"

section \<open>The interface\<close>

text \<open>
  What the handler and the loader use: \<open>find\<close> returns the id of a present string and assigns
  the counter's value to an absent one, \<open>insert\<close> records a pair, \<open>unload\<close> forgets them all;
  all three see a string up to its first NUL only.
\<close>

locale id_index =
  fixes ok :: "'e \<Rightarrow> bool"
    and view :: "'e \<Rightarrow> 's \<Rightarrow> string \<rightharpoonup> num_id"
    and find :: "'e \<Rightarrow> string \<Rightarrow> num_id \<Rightarrow> 's \<Rightarrow> (error + bool \<times> num_id) \<times> num_id \<times> 's"
    and insert :: "'e \<Rightarrow> string \<Rightarrow> num_id \<Rightarrow> 's \<Rightarrow> (error + unit) \<times> 's"
    and unload :: "'e \<Rightarrow> 's \<Rightarrow> 's"
  assumes find_present:
      "ok e \<Longrightarrow> find e s c m = (Inr (ins, i), c', m') \<Longrightarrow> view e m (cstr s) = Some j \<Longrightarrow>
       \<not> ins \<and> i = j \<and> c' = c \<and> view e m' = view e m"
    and find_absent:
      "ok e \<Longrightarrow> find e s c m = (Inr (ins, i), c', m') \<Longrightarrow> view e m (cstr s) = None \<Longrightarrow>
       ins \<and> i = c \<and> c \<noteq> max_num_id \<and> c' = c + 1 \<and> view e m' = (view e m)(cstr s \<mapsto> c)"
    and insert_view:
      "ok e \<Longrightarrow> insert e s i m = (Inr (), m') \<Longrightarrow> view e m' = (view e m)(cstr s \<mapsto> i)"
    and unload_view:
      "ok e \<Longrightarrow> view e (unload e m) = Map.empty"

context id_index
begin

lemma find_result:
  assumes "ok e" and "find e s c m = (Inr (ins, i), c', m')"
  shows "view e m' (cstr s) = Some i"
    and "t \<noteq> cstr s \<Longrightarrow> view e m' t = view e m t"
    and "sint c \<le> sint c'"
  using find_present [OF assms] find_absent [OF assms] sint_num_id_plus_1 [of c]
  by (cases "view e m (cstr s)"; auto)+

text \<open>A second lookup of the same C string returns the id of the first and assigns nothing.\<close>

lemma find_again:
  assumes "ok e" and "find e s c m = (Inr (ins, i), c', m')"
    and "cstr t = cstr s" and "find e t d m' = (Inr (ins', j), d', m'')"
  shows "\<not> ins' \<and> j = i \<and> d' = d \<and> view e m'' = view e m'"
  using find_present [OF assms(1,4)] find_result(1) [OF assms(1,2)] assms(3) by simp

end

lemmas ms_defs = ms_find_def ms_insert_def ms_unload_def ms_view_def

interpretation mem: id_index judy_ok ms_view ms_find ms_insert ms_unload
proof
  fix J :: "'j judy" and s c m ins i c' m' j
  assume ok: "judy_ok J" and f: "ms_find J s c m = (Inr (ins, i), c', m')"
  have get: "nul_free (cstr s)" by simp
  {
    assume v: "ms_view J m (cstr s) = Some j"
    show "\<not> ins \<and> i = j \<and> c' = c \<and> ms_view J m' = ms_view J m"
      using f v judy_get_null [OF ok get, of "data m"] judy_get_slot [OF ok get, of "data m"]
      by (auto simp: ms_defs split: prod.splits if_splits judy_ptr.splits)
  }
  {
    assume v: "ms_view J m (cstr s) = None"
    show "ins \<and> i = c \<and> c \<noteq> max_num_id \<and> c' = c + 1 \<and>
          ms_view J m' = (ms_view J m)(cstr s \<mapsto> c)"
      using f v judy_get_slot [OF ok get, of "data m"] judy_ins [OF ok get, of "data m"]
      by (auto simp: ms_defs judy_store [OF ok] split: prod.splits if_splits judy_ptr.splits)
  }
next
  fix J :: "'j judy" and s i m m'
  assume ok: "judy_ok J" and f: "ms_insert J s i m = (Inr (), m')"
  have get: "nul_free (cstr s)" by simp
  show "ms_view J m' = (ms_view J m)(cstr s \<mapsto> i)"
    using f judy_get_slot [OF ok get, of "data m"] judy_ins [OF ok get, of "data m"]
    by (auto simp: ms_defs judy_store [OF ok] domIff split: prod.splits if_splits judy_ptr.splits)
next
  fix J :: "'j judy" and m
  assume "judy_ok J"
  then show "ms_view J (ms_unload J m) = Map.empty"
    by (simp add: ms_defs judy_view_null)
qed

lemma ms_new_view [simp]: "judy_ok J \<Longrightarrow> ms_view J (ms_new J) = Map.empty"
  by (simp add: ms_view_def ms_new_def judy_view_null)


text \<open>With a healthy array library and room in the counter, every call returns.\<close>

lemma judy_get_cases:
  assumes "judy_no_error J"
  obtains "JudySLGet J a s = (0, PNull)" | w where "JudySLGet J a s = (0, PSlot w)"
  using assms unfolding judy_no_error_def by blast

lemma judy_ins_slot:
  assumes "judy_no_error J"
  obtains w a' where "JudySLIns J a s = (0, PSlot w, a')"
  using assms unfolding judy_no_error_def by blast

lemma ms_find_returns:
  assumes J: "judy_no_error J" and "c \<noteq> max_num_id"
  shows "\<exists>ins i c' m'. ms_find J s c m = (Inr (ins, i), c', m')"
  using assms(2)
  by (cases rule: judy_get_cases [OF J, of "data m" "cstr s"];
      cases rule: judy_ins_slot [OF J, of "data m" "cstr s"])
     (auto simp: ms_find_def)

lemma ms_insert_returns:
  assumes J: "judy_no_error J"
  shows "\<exists>m'. ms_insert J s i m = (Inr (), m')"
  by (cases rule: judy_get_cases [OF J, of "data m" "cstr s"];
      cases rule: judy_ins_slot [OF J, of "data m" "cstr s"])
     (simp_all add: ms_insert_def)

section \<open>Properties\<close>

text \<open>
  \<open>MemoryStorage::find\<close>, with a healthy array library and a counter below its maximum,
  always returns.  A string that is present (as a C string) gets its recorded id and nothing
  changes; an absent one gets the counter's value, which is recorded for it and for no other
  string, and the counter moves to the next number.
\<close>

theorem ms_find_correct:
  assumes "judy_ok J" and "judy_no_error J" and "c \<noteq> max_num_id"
  shows "\<exists>m'. (case ms_view J m (cstr s) of
             Some i \<Rightarrow> ms_find J s c m = (Inr (False, i), c, m') \<and> ms_view J m' = ms_view J m
           | None \<Rightarrow> ms_find J s c m = (Inr (True, c), c + 1, m') \<and>
                     ms_view J m' = (ms_view J m)(cstr s \<mapsto> c))"
proof -
  obtain ins i c' m' where f: "ms_find J s c m = (Inr (ins, i), c', m')"
    using ms_find_returns [OF assms(2,3)] by blast
  show ?thesis
    using f mem.find_present [OF assms(1) f] mem.find_absent [OF assms(1) f]
    by (cases "ms_view J m (cstr s)") auto
qed

theorem ms_find_correct_witness:
  "ms_find alist_judy ''b'' 7 \<lparr>data = [(''a'', 3)], value = None\<rparr>
     = (Inr (True, 7), 8, \<lparr>data = [(''b'', 7), (''b'', 0), (''a'', 3)], value = Some ''b''\<rparr>)"
proof -
  have c: "(7 :: num_id) \<noteq> max_num_id" by (simp add: max_num_id_def)
  show ?thesis
    using ms_find_correct [OF alist_judy_ok alist_judy_no_error c,
        where m = "\<lparr>data = [(''a'', 3)], value = None\<rparr>" and s = "''b''"]
    by (auto simp: ms_find_def alist_judy_def cstr_def max_num_id_def ms_view_def)
qed

text \<open>
  C34. The index sees only the bytes before the first NUL: after a successful \<open>find\<close> of \<open>s\<close>,
  a \<open>find\<close> of any string with the same prefix up to its first NUL (so of a different
  \<open>std::string\<close> with an embedded NUL) returns the id of \<open>s\<close>, reports no insertion, and
  leaves index and counter alone.
\<close>

theorem ms_find_nul_collision:
  assumes "judy_ok J" and "judy_no_error J" and "d \<noteq> max_num_id"
    and "ms_find J s c m = (Inr (ins, i), c', m')" and "cstr t = cstr s"
  shows "\<exists>m''. ms_find J t d m' = (Inr (False, i), d, m'') \<and> ms_view J m'' = ms_view J m'"
proof -
  obtain ins' j d' m'' where f: "ms_find J t d m' = (Inr (ins', j), d', m'')"
    using ms_find_returns [OF assms(2,3)] by blast
  show ?thesis using mem.find_again [OF assms(1,4,5) f] f by auto
qed

theorem ms_find_nul_collision_witness:
  "ms_find alist_judy ''ab'' 5 \<lparr>data = [], value = None\<rparr>
     = (Inr (True, 5), 6, \<lparr>data = [(''ab'', 5), (''ab'', 0)], value = Some ''ab''\<rparr>) \<and>
   (\<exists>m''. ms_find alist_judy (''ab'' @ CHR 0x00 # ''c'') 6
        \<lparr>data = [(''ab'', 5), (''ab'', 0)], value = Some ''ab''\<rparr> = (Inr (False, 5), 6, m''))"
proof -
  have c: "(6 :: num_id) \<noteq> max_num_id" by (simp add: max_num_id_def)
  have f: "ms_find alist_judy ''ab'' 5 \<lparr>data = [], value = None\<rparr>
     = (Inr (True, 5), 6, \<lparr>data = [(''ab'', 5), (''ab'', 0)], value = Some ''ab''\<rparr>)"
    by (simp add: ms_find_def alist_judy_def cstr_def max_num_id_def)
  have t: "cstr (''ab'' @ CHR 0x00 # ''c'') = cstr ''ab''" by (simp add: cstr_def)
  show ?thesis
    using f ms_find_nul_collision [OF alist_judy_ok alist_judy_no_error c f t] by blast
qed

text \<open>
  \<open>MemoryStorage::insert\<close>, with a healthy array library, always returns and makes the
  given id the string's id, replacing an earlier one; every other string keeps its id.
  \<open>unload\<close> forgets all of them.
\<close>

theorem ms_insert_unload_correct:
  assumes "judy_ok J" and "judy_no_error J"
  shows "\<exists>m'. ms_insert J s i m = (Inr (), m') \<and> ms_view J m' = (ms_view J m)(cstr s \<mapsto> i) \<and>
           ms_view J (ms_unload J m') = Map.empty"
  using ms_insert_returns [OF assms(2), of s i m] mem.insert_view [OF assms(1)]
    mem.unload_view [OF assms(1)] by blast

theorem ms_insert_unload_correct_witness:
  "\<exists>m'. ms_insert alist_judy ''a'' 9 \<lparr>data = [(''a'', 3)], value = None\<rparr> = (Inr (), m') \<and>
        ms_view alist_judy m' ''a'' = Some 9 \<and>
        ms_view alist_judy (ms_unload alist_judy m') ''a'' = None"
  using ms_insert_unload_correct [OF alist_judy_ok alist_judy_no_error,
      where m = "\<lparr>data = [(''a'', 3)], value = None\<rparr>" and s = "''a''" and i = 9]
  by (auto simp: cstr_def)

end
