(* ===== verification/Level_DB.thy ===== *)
theory Level_DB
  imports Prelude "HOL-Library.AList"
begin

text \<open>
  LevelDB, which is not part of the repository: a parameter of the model.  A value of \<open>'db\<close>
  is an open database together with everything that decides how its calls end.  The
  functions are the calls that disk\_storage.cpp makes; \<open>ldb_Iterate\<close> gives what a loop
  \<open>SeekToFirst / Valid / Next\<close> sees: the status, key and value at each valid position, and
  the status of the iterator once it is no longer valid.  \<open>ldb_view\<close> is no operation: it is
  the abstract contents that the documented contract \<open>leveldb_ok\<close> speaks about.
\<close>

datatype ldb_status = StOk | StNotFound string | StOther string

fun status_text :: "ldb_status \<Rightarrow> string" where
  "status_text StOk = ''OK''"
| "status_text (StNotFound s) = s"
| "status_text (StOther s) = s"

text \<open>The options that the program sets; block cache by its capacity, bloom filter by its bits.\<close>

record ldb_options =
  create_if_missing :: bool
  block_cache :: "64 word option"
  filter_policy :: "int option"

type_synonym ldb_entry = "ldb_status \<times> string \<times> string"

record 'db leveldb =
  ldb_Open :: "ldb_options \<Rightarrow> string \<Rightarrow> ldb_status \<times> 'db option"
  ldb_Write :: "'db \<Rightarrow> (string \<times> string) list \<Rightarrow> ldb_status \<times> 'db"
  ldb_Get :: "bool \<Rightarrow> 'db \<Rightarrow> string \<Rightarrow> ldb_status \<times> string"
  ldb_Iterate :: "bool \<Rightarrow> 'db \<Rightarrow> ldb_entry list \<times> ldb_status"
  ldb_view :: "'db \<Rightarrow> string \<rightharpoonup> string"

text \<open>
  The documented behaviour: a successful write applies the whole batch in its order; Get
  returns the stored value, or NotFound for an absent key; an iterator stands only on stored
  entries, each key once, and an iteration that ends without an error has seen all of them.
  A successful Open gives a database, a failed one the null pointer.
\<close>

definition leveldb_ok :: "'db leveldb \<Rightarrow> bool" where
  "leveldb_ok L \<longleftrightarrow>
     (\<forall>d b d'. ldb_Write L d b = (StOk, d') \<longrightarrow> ldb_view L d' = put_all (ldb_view L d) b) \<and>
     (\<forall>fc d k v. ldb_Get L fc d k = (StOk, v) \<longrightarrow> ldb_view L d k = Some v) \<and>
     (\<forall>fc d k s v. ldb_Get L fc d k = (StNotFound s, v) \<longrightarrow> ldb_view L d k = None) \<and>
     (\<forall>fc d. distinct (map (fst \<circ> snd) (fst (ldb_Iterate L fc d)))) \<and>
     (\<forall>fc d st k v. (st, k, v) \<in> set (fst (ldb_Iterate L fc d)) \<longrightarrow> ldb_view L d k = Some v) \<and>
     (\<forall>fc d k. snd (ldb_Iterate L fc d) = StOk \<longrightarrow>
        k \<in> dom (ldb_view L d) \<longrightarrow> k \<in> (fst \<circ> snd) ` set (fst (ldb_Iterate L fc d))) \<and>
     (\<forall>opts path d. ldb_Open L opts path = (StOk, d) \<longrightarrow> d \<noteq> None)"

text \<open>No call reports an error: a healthy disk.\<close>

definition leveldb_no_error :: "'db leveldb \<Rightarrow> bool" where
  "leveldb_no_error L \<longleftrightarrow>
     (\<forall>d b. fst (ldb_Write L d b) = StOk) \<and>
     (\<forall>fc d k t. fst (ldb_Get L fc d k) \<noteq> StOther t) \<and>
     (\<forall>fc d e. e \<in> set (fst (ldb_Iterate L fc d)) \<longrightarrow> fst e = StOk) \<and>
     (\<forall>fc d. snd (ldb_Iterate L fc d) = StOk)"

lemma ldb_write:
  "leveldb_ok L \<Longrightarrow> ldb_Write L d b = (StOk, d') \<Longrightarrow> ldb_view L d' = put_all (ldb_view L d) b"
  by (simp add: leveldb_ok_def)

lemma ldb_get_ok:
  "leveldb_ok L \<Longrightarrow> ldb_Get L fc d k = (StOk, v) \<Longrightarrow> ldb_view L d k = Some v"
  by (simp add: leveldb_ok_def)

lemma ldb_get_not_found:
  "leveldb_ok L \<Longrightarrow> ldb_Get L fc d k = (StNotFound s, v) \<Longrightarrow> ldb_view L d k = None"
  unfolding leveldb_ok_def by blast

text \<open>The entries of an iteration, without the statuses.\<close>

definition iter_entries :: "'db leveldb \<Rightarrow> bool \<Rightarrow> 'db \<Rightarrow> (string \<times> string) list" where
  "iter_entries L fc d = map snd (fst (ldb_Iterate L fc d))"

lemma iter_distinct: "leveldb_ok L \<Longrightarrow> distinct (map fst (iter_entries L fc d))"
  by (simp add: leveldb_ok_def iter_entries_def)

lemma iter_sound: "leveldb_ok L \<Longrightarrow> (k, v) \<in> set (iter_entries L fc d) \<Longrightarrow> ldb_view L d k = Some v"
  by (auto simp: leveldb_ok_def iter_entries_def)

lemma iter_complete:
  assumes "leveldb_ok L" and "snd (ldb_Iterate L fc d) = StOk"
  shows "map_of (iter_entries L fc d) = ldb_view L d"
proof
  fix k
  show "map_of (iter_entries L fc d) k = ldb_view L d k"
  proof (cases "ldb_view L d k")
    case None
    then have "k \<notin> fst ` set (iter_entries L fc d)"
      using iter_sound [OF assms(1)] by fastforce
    with None show ?thesis by (simp add: map_of_eq_None_iff)
  next
    case (Some v)
    then have "k \<in> (fst \<circ> snd) ` set (fst (ldb_Iterate L fc d))"
      using assms unfolding leveldb_ok_def by blast
    then have "k \<in> fst ` set (iter_entries L fc d)"
      by (simp add: iter_entries_def image_image)
    then obtain v' where "(k, v') \<in> set (iter_entries L fc d)" by auto
    with Some show ?thesis
      using iter_sound [OF assms(1)] iter_distinct [OF assms(1)]
      by (metis map_of_is_SomeI)
  qed
qed

section \<open>A concrete database, for the witnesses\<close>

text \<open>An association list satisfies the contract and never fails.\<close>

definition alist_put :: "(string \<times> string) list \<Rightarrow> string \<times> string \<Rightarrow> (string \<times> string) list" where
  "alist_put d kv = AList.update (fst kv) (snd kv) d"

definition alist_db :: "(string \<times> string) list leveldb" where
  "alist_db =
     \<lparr>ldb_Open = (\<lambda>opts path. (StOk, Some [])),
      ldb_Write = (\<lambda>d b. (StOk, foldl alist_put d b)),
      ldb_Get = (\<lambda>fc d k. case map_of d k of
                    None \<Rightarrow> (StNotFound ''NotFound: '', []) | Some v \<Rightarrow> (StOk, v)),
      ldb_Iterate = (\<lambda>fc d. (map (Pair StOk) (AList.clearjunk d), StOk)),
      ldb_view = map_of\<rparr>"

lemma map_of_alist_fold: "map_of (foldl alist_put d b) = put_all (map_of d) b"
  by (induction b arbitrary: d)
     (auto simp: alist_put_def AList.update_conv' simp del: fun_upd_apply)

lemma alist_db_ok [simp]: "leveldb_ok alist_db"
proof -
  have keys: "k \<in> fst ` set (AList.clearjunk d)" if "k \<in> dom (map_of d)"
    for k :: string and d :: "(string \<times> string) list"
    using that by (simp add: dom_map_of_conv_image_fst AList.dom_clearjunk)
  show ?thesis
    using keys
    by (auto simp: leveldb_ok_def alist_db_def map_of_alist_fold comp_def image_image
        AList.map_of_clearjunk distinct_clearjunk [unfolded comp_def]
        map_of_is_SomeI [of "AList.clearjunk _", unfolded AList.map_of_clearjunk]
        split: option.splits)
qed

lemma alist_db_no_error [simp]: "leveldb_no_error alist_db"
  by (auto simp: leveldb_no_error_def alist_db_def split: option.splits)

end
