(* ===== verification/Disk_Storage.thy ===== *)
theory Disk_Storage
  imports Level_DB Exceptions
begin

text \<open>
  disk\_storage.hpp and disk\_storage.cpp, but for the dump and restore routines: the durable
  table from ids to strings.  A key is the eight bytes of the id.  The operations take the
  database library as their first argument; the ones that change the object return it beside
  the outcome.  The locale \<open>id_store\<close> is what the rest of the program relies on, and the
  interpretation \<open>disk\<close> shows that this class provides it.
\<close>

record 'db disk_storage =
  db :: "'db option"
  cache_size :: "32 word"
  options :: ldb_options

definition kBloomFilterBits :: int where
  "kBloomFilterBits = 10"

definition ds_new :: "'db disk_storage" where
  "ds_new = \<lparr>db = None, cache_size = 0,
     options = \<lparr>create_if_missing = False, block_cache = None, filter_policy = None\<rparr>\<rparr>"

text \<open>
  \<open>init\<close>: the capacity \<open>1024 * 1024 * cache\<close> is computed in \<open>int\<close>, where a product
  above \<open>INT_MAX\<close> is undefined, and then converted to \<open>size_t\<close>.
\<close>

definition ds_init ::
  "'db leveldb \<Rightarrow> string \<Rightarrow> 32 word \<Rightarrow> 'db disk_storage \<Rightarrow> (error + unit) \<times> 'db disk_storage" where
  "ds_init L path cache ds =
     (let ds = ds\<lparr>cache_size := cache, options := (options ds)\<lparr>create_if_missing := True\<rparr>\<rparr> in
      if 0 < sint cache \<and> 2 ^ 31 \<le> 1024 * 1024 * sint cache then (Inl (UB SignedOverflow), ds)
      else
        let ds = (if 0 < sint cache
                  then ds\<lparr>options := (options ds)
                         \<lparr>block_cache := Some (of_int (1024 * 1024 * sint cache))\<rparr>\<rparr>
                  else ds);
            ds = ds\<lparr>options := (options ds)\<lparr>filter_policy := Some kBloomFilterBits\<rparr>\<rparr> in
        case ldb_Open L (options ds) path of (status, d) \<Rightarrow>
          (if status = StOk then Inr () else Inl (Exc (InitFailed (status_text status))),
           ds\<lparr>db := d\<rparr>))"

definition kv_batch :: "kv_pair list \<Rightarrow> (string \<times> string) list" where
  "kv_batch kv_pairs = map (\<lambda>(k, v). (id_bytes k, v)) kv_pairs"

definition ds_write ::
  "'db leveldb \<Rightarrow> 'db disk_storage \<Rightarrow> kv_pair list \<Rightarrow> (error + unit) \<times> 'db disk_storage" where
  "ds_write L ds kv_pairs =
     (case db ds of
        None \<Rightarrow> (Inl (UB NullDereference), ds)
      | Some d \<Rightarrow>
          (case ldb_Write L d (kv_batch kv_pairs) of (status, d') \<Rightarrow>
             (if status = StOk then Inr () else Inl (Exc (WriteFailed (status_text status))),
              ds\<lparr>db := Some d'\<rparr>)))"

text \<open>
  \<open>load_in_memory\<close>: \<open>ins\<close> is the \<open>insert\<close> of the storage it fills.  \<open>memcpy\<close> copies
  as many bytes as the key has over the previous id; the first time that is whatever the
  uninitialised variable held (\<open>junk\<close>).  The counter of loaded entries is only logged.
\<close>

definition memcpy_id :: "num_id \<Rightarrow> string \<Rightarrow> num_id" where
  "memcpy_id current_id key = bytes_id (overlay key (id_bytes current_id))"

fun load_loop ::
  "(string \<Rightarrow> num_id \<Rightarrow> 'm \<Rightarrow> (error + unit) \<times> 'm) \<Rightarrow> ldb_entry list \<Rightarrow> num_id \<Rightarrow> num_id \<Rightarrow> 'm \<Rightarrow>
     (error + num_id) \<times> 'm" where
  "load_loop ins [] current_id max_id m = (Inr max_id, m)"
| "load_loop ins ((status, key, val) # es) current_id max_id m =
     (if status \<noteq> StOk then (Inl (Exc (IterationFailed (status_text status))), m)
      else if 8 < length key then (Inl (UB BufferOverflow), m)
      else
        let current_id = memcpy_id current_id key in
        case ins val current_id m of
          (Inl e, m') \<Rightarrow> (Inl e, m')
        | (Inr _, m') \<Rightarrow>
            load_loop ins es current_id (if max_id <s current_id then current_id else max_id) m')"

definition ds_load_in_memory ::
  "'db leveldb \<Rightarrow> (string \<Rightarrow> num_id \<Rightarrow> 'm \<Rightarrow> (error + unit) \<times> 'm) \<Rightarrow> num_id \<Rightarrow>
     'db disk_storage \<Rightarrow> 'm \<Rightarrow> (error + num_id) \<times> 'm" where
  "ds_load_in_memory L ins junk ds m =
     (case db ds of
        None \<Rightarrow> (Inl (UB NullDereference), m)
      | Some d \<Rightarrow> load_loop ins (fst (ldb_Iterate L False d)) junk 0 m)"

text \<open>\<open>lookup\<close>: \<open>values\<close> and \<open>failures\<close> are the vectors built so far.\<close>

fun lookup_loop ::
  "'db leveldb \<Rightarrow> bool \<Rightarrow> 'db \<Rightarrow> num_id list \<Rightarrow> failure_idx \<Rightarrow> string list \<Rightarrow> failure_idx list \<Rightarrow>
     error + string list \<times> failure_idx list" where
  "lookup_loop L fill_cache d [] failure_idx values failures = Inr (values, failures)"
| "lookup_loop L fill_cache d (k # keys) failure_idx values failures =
     (case ldb_Get L fill_cache d (id_bytes k) of (status, v) \<Rightarrow>
        case status of
          StOther _ \<Rightarrow> Inl (Exc (GetFailed (status_text status)))
        | StOk \<Rightarrow>
            (if failure_idx = max_failure_idx then Inl (UB SignedOverflow)
             else lookup_loop L fill_cache d keys (failure_idx + 1) (values @ [v]) failures)
        | StNotFound _ \<Rightarrow>
            (if failure_idx = max_failure_idx then Inl (UB SignedOverflow)
             else lookup_loop L fill_cache d keys (failure_idx + 1)
                    (values @ [[]]) (failures @ [failure_idx])))"

definition ds_lookup ::
  "'db leveldb \<Rightarrow> 'db disk_storage \<Rightarrow> num_id list \<Rightarrow> error + string list \<times> failure_idx list" where
  "ds_lookup L ds keys =
     (let fill_cache = \<not> (sint (cache_size ds) < 0) in
      case keys of
        [] \<Rightarrow> Inr ([], [])
      | _ \<Rightarrow> (case db ds of
                None \<Rightarrow> Inl (UB NullDereference)
              | Some d \<Rightarrow> lookup_loop L fill_cache d keys 0 [] []))"

text \<open>The contents of the table, and the two facts about it that loading relies on.\<close>

definition ds_view :: "'db leveldb \<Rightarrow> 'db disk_storage \<Rightarrow> num_id \<rightharpoonup> string" where
  "ds_view L ds i = (case db ds of None \<Rightarrow> None | Some d \<Rightarrow> ldb_view L d (id_bytes i))"

definition ds_wf :: "'db leveldb \<Rightarrow> 'db disk_storage \<Rightarrow> bool" where
  "ds_wf L ds \<longleftrightarrow> (\<exists>d. db ds = Some d \<and> (\<forall>k \<in> dom (ldb_view L d). length k = 8))"

definition ds_intact :: "'db leveldb \<Rightarrow> 'db disk_storage \<Rightarrow> bool" where
  "ds_intact L ds \<longleftrightarrow> (\<exists>d. db ds = Some d \<and> snd (ldb_Iterate L False d) = StOk)"

section \<open>What the operations compute\<close>

text \<open>The answers of a lookup over a table: values by position, positions that have none.\<close>

definition lookup_values :: "(num_id \<rightharpoonup> string) \<Rightarrow> num_id list \<Rightarrow> string list" where
  "lookup_values tab keys = map (\<lambda>k. case tab k of None \<Rightarrow> [] | Some v \<Rightarrow> v) keys"

definition lookup_failures :: "(num_id \<rightharpoonup> string) \<Rightarrow> nat \<Rightarrow> num_id list \<Rightarrow> failure_idx list" where
  "lookup_failures tab n keys =
     map (\<lambda>i. of_nat (n + i)) (filter (\<lambda>i. tab (keys ! i) = None) [0..<length keys])"

lemma lookup_failures_Nil [simp]: "lookup_failures tab n [] = []"
  by (simp add: lookup_failures_def)

lemma lookup_failures_Cons [simp]:
  "lookup_failures tab n (k # ks) =
     (if tab k = None then [of_nat n] else []) @ lookup_failures tab (Suc n) ks"
proof -
  have "[0..<length (k # ks)] = 0 # map Suc [0..<length ks]"
    by (simp add: map_Suc_upt upt_conv_Cons del: upt_Suc)
  then show ?thesis
    by (simp add: lookup_failures_def filter_map comp_def del: upt_Suc)
qed

text \<open>Loading, seen from the storage that is filled: every pair of a list is inserted.\<close>

fun insert_all ::
  "(string \<Rightarrow> num_id \<Rightarrow> 'm \<Rightarrow> (error + unit) \<times> 'm) \<Rightarrow> kv_pair list \<Rightarrow> num_id \<Rightarrow> 'm \<Rightarrow>
     (error + num_id) \<times> 'm" where
  "insert_all ins [] max_id m = (Inr max_id, m)"
| "insert_all ins ((i, v) # kvs) max_id m =
     (case ins v i m of
        (Inl e, m') \<Rightarrow> (Inl e, m')
      | (Inr _, m') \<Rightarrow> insert_all ins kvs (if max_id <s i then i else max_id) m')"

lemma insert_all_max:
  "insert_all ins kvs mx m = (Inr mx', m') \<Longrightarrow> mx' = mx \<or> mx' \<in> fst ` set kvs"
  by (induction ins kvs mx m rule: insert_all.induct) (auto split: prod.splits sum.splits if_splits)

lemma memcpy_id_full: "length key = 8 \<Longrightarrow> memcpy_id c key = bytes_id key"
  by (simp add: memcpy_id_def)

lemma load_loop_insert_all:
  assumes "\<forall>(st, k, v) \<in> set es. st = StOk \<and> length k = 8"
  shows "load_loop ins es c mx m = insert_all ins (map (\<lambda>(st, k, v). (bytes_id k, v)) es) mx m"
  using assms
  by (induction es arbitrary: c mx m)
     (auto simp: memcpy_id_full Let_def split: prod.splits sum.splits)

lemma load_loop_Inr_statuses:
  "load_loop ins es c mx m = (Inr r, m') \<Longrightarrow> e \<in> set es \<Longrightarrow> fst e = StOk"
  by (induction es arbitrary: c mx m)
     (auto simp: Let_def split: prod.splits sum.splits if_splits)

lemma lookup_loop_Inr:
  assumes ok: "leveldb_ok L"
    and "lookup_loop L fc d keys (of_nat n) vs fs = Inr (vs', fs')"
  shows "vs' = vs @ lookup_values (\<lambda>i. ldb_view L d (id_bytes i)) keys \<and>
         fs' = fs @ lookup_failures (\<lambda>i. ldb_view L d (id_bytes i)) n keys"
  using assms(2)
proof (induction keys arbitrary: n vs fs)
  case Nil
  then show ?case by (simp add: lookup_values_def)
next
  case (Cons k keys)
  obtain status v where g: "ldb_Get L fc d (id_bytes k) = (status, v)" by fastforce
  have rest: "lookup_loop L fc d keys (of_nat (Suc n)) vs2 fs2 = Inr (vs', fs') \<Longrightarrow>
      vs' = vs2 @ lookup_values (\<lambda>i. ldb_view L d (id_bytes i)) keys \<and>
      fs' = fs2 @ lookup_failures (\<lambda>i. ldb_view L d (id_bytes i)) (Suc n) keys" for vs2 fs2
    by (rule Cons.IH)
  show ?case
  proof (cases status)
    case StOk
    with Cons.prems g rest [of "vs @ [v]" fs] ldb_get_ok [OF ok] show ?thesis
      by (simp add: lookup_values_def add.commute split: if_splits)
  next
    case (StNotFound t)
    with Cons.prems g rest [of "vs @ [[]]" "fs @ [of_nat n]"] ldb_get_not_found [OF ok]
    show ?thesis by (simp add: lookup_values_def add.commute split: if_splits)
  next
    case (StOther t)
    with Cons.prems g show ?thesis by simp
  qed
qed

lemma lookup_loop_returns:
  assumes ok: "leveldb_no_error L" and "n + length keys < 2 ^ 31"
  shows "\<exists>r. lookup_loop L fc d keys (of_nat n) vs fs = Inr r"
  using assms(2)
proof (induction keys arbitrary: n vs fs)
  case Nil
  then show ?case by simp
next
  case (Cons k keys)
  have "of_nat n \<noteq> max_failure_idx"
  proof
    assume eq: "of_nat n = max_failure_idx"
    have "unat (of_nat n :: failure_idx) = n"
      using Cons.prems by (simp add: unsigned_of_nat take_bit_nat_eq_self)
    with eq Cons.prems show False by (simp add: max_failure_idx_def)
  qed
  moreover have "\<exists>r. lookup_loop L fc d keys (of_nat n + 1) vs2 fs2 = Inr r" for vs2 fs2
    using Cons.IH [of "Suc n"] Cons.prems by (simp add: add.commute)
  moreover obtain status v where g: "ldb_Get L fc d (id_bytes k) = (status, v)" by fastforce
  moreover have "status = StOk \<or> (\<exists>t. status = StNotFound t)"
    using ok g unfolding leveldb_no_error_def by (metis fst_conv ldb_status.exhaust)
  ultimately show ?case by auto
qed

section \<open>The interface\<close>

text \<open>
  What the handler and \<open>main\<close> use: \<open>write\<close> stores a batch and keeps the table well formed,
  \<open>lookup\<close> answers position by position, \<open>load\<close> inserts every pair of the table once into
  the storage it is given and returns the greatest id (at least 0).  \<open>intact\<close> holds when an
  iteration over the table ends without an error.
\<close>

locale id_store =
  fixes ok :: "'e \<Rightarrow> bool"
    and tab :: "'e \<Rightarrow> 's \<Rightarrow> num_id \<rightharpoonup> string"
    and wf :: "'e \<Rightarrow> 's \<Rightarrow> bool"
    and intact :: "'e \<Rightarrow> 's \<Rightarrow> bool"
    and "write" :: "'e \<Rightarrow> 's \<Rightarrow> kv_pair list \<Rightarrow> (error + unit) \<times> 's"
    and lookup :: "'e \<Rightarrow> 's \<Rightarrow> num_id list \<Rightarrow> error + string list \<times> failure_idx list"
    and load :: "'e \<Rightarrow> (string \<Rightarrow> num_id \<Rightarrow> 'm \<Rightarrow> (error + unit) \<times> 'm) \<Rightarrow> num_id \<Rightarrow> 's \<Rightarrow> 'm \<Rightarrow>
          (error + num_id) \<times> 'm"
  assumes write_tab:
      "ok e \<Longrightarrow> write e s kvs = (Inr (), s') \<Longrightarrow> tab e s' = put_all (tab e s) kvs"
    and write_wf:
      "ok e \<Longrightarrow> write e s kvs = (Inr (), s') \<Longrightarrow> wf e s \<Longrightarrow> wf e s'"
    and lookup_tab:
      "ok e \<Longrightarrow> lookup e s keys = Inr (vs, fs) \<Longrightarrow>
       vs = lookup_values (tab e s) keys \<and> fs = lookup_failures (tab e s) 0 keys"
    and load_tab:
      "ok e \<Longrightarrow> wf e s \<Longrightarrow> intact e s \<Longrightarrow> load e ins junk s m = (Inr mx, m') \<Longrightarrow>
       \<exists>kvs. distinct (map fst kvs) \<and> map_of kvs = tab e s \<and>
             insert_all ins kvs 0 m = (Inr mx, m')"

lemma ds_view_batch:
  assumes "leveldb_ok L" and "ldb_Write L d (kv_batch kvs) = (StOk, d')"
  shows "(\<lambda>i. ldb_view L d' (id_bytes i)) = put_all (\<lambda>i. ldb_view L d (id_bytes i)) kvs"
  using ldb_write [OF assms] put_all_inj_map [of id_bytes "ldb_view L d" kvs]
  by (auto simp: kv_batch_def fun_eq_iff inj_def comp_def)

lemma kv_batch_keys: "k \<in> fst ` set (kv_batch kvs) \<Longrightarrow> length k = 8"
  by (auto simp: kv_batch_def)

lemma ds_view_Some [simp]:
  "db ds = Some d \<Longrightarrow> ds_view L ds = (\<lambda>i. ldb_view L d (id_bytes i))"
  by (simp add: ds_view_def fun_eq_iff)

text \<open>The pairs an iteration over a well-formed table visits.\<close>

definition iter_pairs :: "'db leveldb \<Rightarrow> 'db \<Rightarrow> kv_pair list" where
  "iter_pairs L d = map (\<lambda>(st, k, v). (bytes_id k, v)) (fst (ldb_Iterate L False d))"

lemma iter_pairs_alt:
  "iter_pairs L d = map (\<lambda>(k, v). (bytes_id k, v)) (iter_entries L False d)"
  by (simp add: iter_pairs_def iter_entries_def split_def)

lemma iter_keys8:
  "leveldb_ok L \<Longrightarrow> \<forall>k \<in> dom (ldb_view L d). length k = 8 \<Longrightarrow>
   (k, v) \<in> set (iter_entries L fc d) \<Longrightarrow> length k = 8"
  using iter_sound by fastforce

lemma iter_pairs_distinct:
  assumes "leveldb_ok L" and "\<forall>k \<in> dom (ldb_view L d). length k = 8"
  shows "distinct (map fst (iter_pairs L d))"
proof -
  have "inj_on bytes_id (fst ` set (iter_entries L False d))"
    using iter_keys8 [OF assms] id_bytes_bytes_id by (intro inj_onI) (metis imageE prod.collapse)
  moreover have "map fst (iter_pairs L d) = map bytes_id (map fst (iter_entries L False d))"
    by (simp add: iter_pairs_alt split_def)
  ultimately show ?thesis
    using iter_distinct [OF assms(1), of False d] by (simp add: distinct_map comp_inj_on)
qed

lemma iter_pairs_map_of:
  assumes "leveldb_ok L" and "\<forall>k \<in> dom (ldb_view L d). length k = 8"
    and "snd (ldb_Iterate L False d) = StOk"
  shows "map_of (iter_pairs L d) i = ldb_view L d (id_bytes i)"
proof -
  have "map_of (map (\<lambda>(k, v). (bytes_id k, v)) es) i = map_of es (id_bytes i)"
    if "\<forall>(k, v) \<in> set es. length k = 8" for es :: "(string \<times> string) list"
    using that by (induction es) (auto simp: id_bytes_bytes_id)
  moreover have "\<forall>(k, v) \<in> set (iter_entries L False d). length k = 8"
    using iter_keys8 [OF assms(1,2)] by blast
  ultimately have "map_of (iter_pairs L d) i = map_of (iter_entries L False d) (id_bytes i)"
    unfolding iter_pairs_alt by blast
  then show ?thesis using iter_complete [OF assms(1,3)] by simp
qed

interpretation disk: id_store leveldb_ok ds_view ds_wf ds_intact ds_write ds_lookup
  ds_load_in_memory
proof
  fix L :: "'db leveldb" and s :: "'db disk_storage" and kvs s'
  assume ok: "leveldb_ok L" and w: "ds_write L s kvs = (Inr (), s')"
  then obtain d d' where d: "db s = Some d" "ldb_Write L d (kv_batch kvs) = (StOk, d')"
    "s' = s\<lparr>db := Some d'\<rparr>"
    by (auto simp: ds_write_def split: option.splits prod.splits if_splits)
  then show "ds_view L s' = put_all (ds_view L s) kvs"
    using ds_view_batch [OF ok d(2)] by simp
  show "ds_wf L s'" if "ds_wf L s"
    using that d ldb_write [OF ok d(2)] kv_batch_keys [of _ kvs]
    by (auto simp: ds_wf_def dom_put_all)
next
  fix L :: "'db leveldb" and s :: "'db disk_storage" and keys vs fs
  assume ok: "leveldb_ok L" and l: "ds_lookup L s keys = Inr (vs, fs)"
  show "vs = lookup_values (ds_view L s) keys \<and> fs = lookup_failures (ds_view L s) 0 keys"
  proof (cases keys)
    case Nil
    with l show ?thesis by (simp add: ds_lookup_def lookup_values_def)
  next
    case (Cons k ks)
    with l obtain d where "db s = Some d"
      "lookup_loop L (\<not> sint (cache_size s) < 0) d keys (of_nat 0) [] [] = Inr (vs, fs)"
      by (auto simp: ds_lookup_def Let_def split: option.splits)
    with lookup_loop_Inr [OF ok this(2)] show ?thesis by simp
  qed
next
  fix L :: "'db leveldb" and s :: "'db disk_storage" and ins junk m mx m'
  assume ok: "leveldb_ok L" and "ds_wf L s" "ds_intact L s"
    and l: "ds_load_in_memory L ins junk s m = (Inr mx, m')"
  then obtain d where d: "db s = Some d" "\<forall>k \<in> dom (ldb_view L d). length k = 8"
    "snd (ldb_Iterate L False d) = StOk"
    by (auto simp: ds_wf_def ds_intact_def)
  have ll: "load_loop ins (fst (ldb_Iterate L False d)) junk 0 m = (Inr mx, m')"
    using l d(1) by (simp add: ds_load_in_memory_def)
  have "st = StOk \<and> length k = 8" if e: "(st, k, v) \<in> set (fst (ldb_Iterate L False d))"
    for st k v
  proof -
    have "(k, v) \<in> set (iter_entries L False d)" using e by (force simp: iter_entries_def)
    then show ?thesis
      using load_loop_Inr_statuses [OF ll e] iter_keys8 [OF ok d(2)] by simp
  qed
  then have "\<forall>(st, k, v) \<in> set (fst (ldb_Iterate L False d)). st = StOk \<and> length k = 8"
    by blast
  then have "insert_all ins (iter_pairs L d) 0 m = (Inr mx, m')"
    using ll by (simp add: load_loop_insert_all iter_pairs_def)
  then show "\<exists>kvs. distinct (map fst kvs) \<and> map_of kvs = ds_view L s \<and>
      insert_all ins kvs 0 m = (Inr mx, m')"
    using iter_pairs_distinct [OF ok d(2)] iter_pairs_map_of [OF ok d(2,3)] d(1)
    by (auto simp: fun_eq_iff)
qed

section \<open>Properties\<close>

lemma lookup_failures_mem:
  assumes "length keys < 2 ^ 31" and "i < length keys"
  shows "of_nat i \<in> set (lookup_failures tab 0 keys) \<longleftrightarrow> tab (keys ! i) = None"
proof -
  have "(of_nat i :: failure_idx) = of_nat j \<longleftrightarrow> i = j" if "j < length keys" for j
    using that assms by (simp add: word_unat_eq_iff unsigned_of_nat take_bit_nat_eq_self)
  with assms(2) show ?thesis by (auto simp: lookup_failures_def)
qed

lemma ds_lookup_returns:
  assumes "leveldb_ok L" and "leveldb_no_error L" and "db ds = Some d" and "length keys < 2 ^ 31"
  shows "ds_lookup L ds keys =
           Inr (lookup_values (ds_view L ds) keys, lookup_failures (ds_view L ds) 0 keys)"
proof -
  have "\<exists>r. ds_lookup L ds keys = Inr r"
  proof (cases keys)
    case Nil
    then show ?thesis by (simp add: ds_lookup_def)
  next
    case (Cons k ks)
    then show ?thesis
      using lookup_loop_returns [OF assms(2), of 0 keys] assms(3,4)
      by (simp add: ds_lookup_def Let_def del: lookup_loop.simps)
  qed
  then obtain vs fs where "ds_lookup L ds keys = Inr (vs, fs)" by auto
  with disk.lookup_tab [OF assms(1) this] show ?thesis by simp
qed

text \<open>
  \<open>DiskStorage::lookup\<close> on a healthy open database, for fewer than \<open>2^31\<close> keys: it
  returns one string per key, in order.  At the position of a stored id stands its string,
  and the position is no failure; at the position of an absent id stands the empty string,
  and the position is among the failures.  (An empty stored string and an absent id differ
  in the failures alone.)
\<close>

theorem ds_lookup_correct:
  assumes "leveldb_ok L" and "leveldb_no_error L" and "db ds = Some d" and "length keys < 2 ^ 31"
  shows "\<exists>vs fs. ds_lookup L ds keys = Inr (vs, fs) \<and> length vs = length keys \<and>
           (\<forall>i < length keys.
              case ldb_view L d (id_bytes (keys ! i)) of
                Some v \<Rightarrow> vs ! i = v \<and> of_nat i \<notin> set fs
              | None \<Rightarrow> vs ! i = [] \<and> of_nat i \<in> set fs)"
  using ds_lookup_returns [OF assms] lookup_failures_mem [OF assms(4)] assms(3)
  by (auto simp: lookup_values_def split: option.splits)

theorem ds_lookup_correct_witness:
  "ds_lookup alist_db (ds_new\<lparr>db := Some [(id_bytes 7, ''seven'')]\<rparr>) [7, 8]
     = Inr ([''seven'', []], [1])"
proof -
  let ?ds = "(ds_new :: (string \<times> string) list disk_storage)\<lparr>db := Some [(id_bytes 7, ''seven'')]\<rparr>"
  have "db ?ds = Some [(id_bytes 7, ''seven'')]" "length [7, 8 :: num_id] < 2 ^ 31" by simp_all
  from ds_lookup_correct [OF alist_db_ok alist_db_no_error this]
  show ?thesis
    by (auto simp: ds_lookup_def alist_db_def ds_new_def max_failure_idx_def)
qed

text \<open>
  Writing and looking up are inverse: after a successful \<open>DiskStorage::write\<close> of pairs
  with different ids, looking up exactly those ids, in the same order, gives back exactly the
  strings, with no failure, whatever the table held before.
\<close>

theorem ds_write_lookup_roundtrip:
  assumes "leveldb_ok L" and "leveldb_no_error L" and "length kvs < 2 ^ 31"
    and "distinct (map fst kvs)" and "db ds = Some d"
  shows "\<exists>ds'. ds_write L ds kvs = (Inr (), ds') \<and>
           ds_lookup L ds' (map fst kvs) = Inr (map snd kvs, [])"
proof -
  obtain d' where w: "ldb_Write L d (kv_batch kvs) = (StOk, d')"
    using assms(2) unfolding leveldb_no_error_def by (metis prod.collapse)
  let ?ds = "ds\<lparr>db := Some d'\<rparr>"
  have ds: "ds_write L ds kvs = (Inr (), ?ds)" using w assms(5) by (simp add: ds_write_def)
  have tab: "ds_view L ?ds k = Some v" if "(k, v) \<in> set kvs" for k v
    using that disk.write_tab [OF assms(1) ds] put_all_mem [OF assms(4)] by simp
  then have "lookup_values (ds_view L ?ds) (map fst kvs) = map snd kvs"
    by (auto simp: lookup_values_def split: option.splits)
  moreover have "lookup_failures (ds_view L ?ds) n (map fst kvs') = []"
    if "set kvs' \<subseteq> set kvs" for n kvs'
    using that tab by (induction kvs' arbitrary: n) auto
  ultimately show ?thesis
    using ds ds_lookup_returns [OF assms(1,2), of ?ds d' "map fst kvs"] assms(3) by auto
qed

theorem ds_write_lookup_roundtrip_witness:
  "\<exists>ds'. ds_write alist_db (ds_new\<lparr>db := Some []\<rparr>) [(5, ''five''), (300, [])] = (Inr (), ds') \<and>
         ds_lookup alist_db ds' [5, 300] = Inr ([''five'', []], [])"
proof -
  have "distinct (map fst [(5 :: num_id, ''five''), (300, [])])" by simp
  from ds_write_lookup_roundtrip [OF alist_db_ok alist_db_no_error _ this]
  show ?thesis by simp
qed

text \<open>
  C33. The cache size of \<open>DiskStorage::init\<close>: its product with \<open>1024 * 1024\<close> leaves the
  range of \<open>int\<close> exactly when 2048 megabytes or more are asked for, and then the database is
  not opened (the behaviour is undefined).  Below, the block cache of a positive size has
  exactly that many megabytes, and a size of 0 or less leaves the options' cache alone.
\<close>

theorem ds_init_cache_bounds:
  "(fst (ds_init L path cache ds) = Inl (UB SignedOverflow) \<longleftrightarrow> 2048 \<le> sint cache) \<and>
   (2048 \<le> sint cache \<longrightarrow> db (snd (ds_init L path cache ds)) = db ds) \<and>
   (0 < sint cache \<and> sint cache < 2048 \<longrightarrow>
      (\<exists>w. block_cache (options (snd (ds_init L path cache ds))) = Some w \<and>
           uint w = 1024 * 1024 * sint cache)) \<and>
   (sint cache \<le> 0 \<longrightarrow>
      block_cache (options (snd (ds_init L path cache ds))) = block_cache (options ds))"
proof -
  have "uint (of_int x :: 64 word) = x" if "0 \<le> x" "x < 2 ^ 64" for x
    using that by (simp add: unsigned_of_int take_bit_int_eq_self)
  from this [of "1048576 * sint cache"]
  have "uint (1048576 * scast cache :: 64 word) = 1048576 * sint cache"
    if "0 < sint cache" "sint cache < 2048"
    using that by simp
  then show ?thesis
    by (auto simp: ds_init_def Let_def split: prod.splits)
qed

theorem ds_init_cache_bounds_witness:
  "fst (ds_init alist_db ''/data'' 4096 ds_new) = Inl (UB SignedOverflow)"
  using ds_init_cache_bounds [of alist_db "''/data''" 4096 ds_new] by simp

text \<open>
  C32. \<open>DiskStorage::load_in_memory\<close> does not notice an iteration that stops with an error:
  when the entries it stood on were fine and the iterator then became invalid with an error
  status (\<open>end_status\<close>), it returns normally, with only the visited entries inserted and the
  greatest of the visited ids, exactly as if the table had nothing else.
\<close>

theorem load_ignores_end_status:
  assumes "db ds = Some d" and "ldb_Iterate L False d = (map (\<lambda>(i, v). (StOk, id_bytes i, v)) kvs, end_status)"
  shows "ds_load_in_memory L ins junk ds m = insert_all ins kvs 0 m"
proof -
  have "load_loop ins (map (\<lambda>(i, v). (StOk, id_bytes i, v)) kvs) junk 0 m = insert_all ins kvs 0 m"
    by (subst load_loop_insert_all) (auto simp: comp_def split_def)
  with assms show ?thesis by (simp add: ds_load_in_memory_def)
qed

definition failing_db :: "(string \<times> string) list leveldb" where
  "failing_db = alist_db\<lparr>ldb_Iterate := (\<lambda>fc d. (map (Pair StOk) (take 1 d), StOther ''IO error''))\<rparr>"

theorem load_ignores_end_status_witness:
  "ds_load_in_memory failing_db (\<lambda>v i m. (Inr (), (v, i) # m)) 0
     (ds_new\<lparr>db := Some [(id_bytes 1, ''a''), (id_bytes 2, ''b'')]\<rparr>) []
   = (Inr 1, [(''a'', 1)])"
proof -
  let ?ds = "ds_new\<lparr>db := Some [(id_bytes 1, ''a''), (id_bytes 2, ''b'')]\<rparr>"
  have "db ?ds = Some [(id_bytes 1, ''a''), (id_bytes 2, ''b'')]" by simp
  moreover have "ldb_Iterate failing_db False [(id_bytes 1, ''a''), (id_bytes 2, ''b'')]
      = (map (\<lambda>(i, v). (StOk, id_bytes i, v)) [(1, ''a'')], StOther ''IO error'')"
    by (simp add: failing_db_def alist_db_def)
  ultimately have "ds_load_in_memory failing_db (\<lambda>v i m. (Inr (), (v, i) # m)) 0 ?ds []
      = insert_all (\<lambda>v i m. (Inr (), (v, i) # m)) [(1, ''a'')] 0 []"
    by (rule load_ignores_end_status)
  then show ?thesis by (simp add: word_sless_alt)
qed

end
