(* ===== verification/Interning.thy ===== *)
theory Interning
  imports Memory_Storage Disk_Storage
begin

text \<open>
  The abstract specification of the service, on maps: an index from strings to ids, a table
  from ids to strings, and the next id.  \<open>coherent\<close> is the relation the server keeps between
  the three; \<open>intern\<close> is what one batch of string-to-id requests does to them.  Strings are
  compared up to their first NUL, which is all the index sees of them.
\<close>

section \<open>The relation between index, table and counter\<close>

definition index_sound :: "(string \<rightharpoonup> num_id) \<Rightarrow> (num_id \<rightharpoonup> string) \<Rightarrow> bool" where
  "index_sound idx tab \<longleftrightarrow> (\<forall>t i. idx t = Some i \<longrightarrow> (\<exists>s. tab i = Some s \<and> cstr s = t))"

definition index_complete :: "(string \<rightharpoonup> num_id) \<Rightarrow> (num_id \<rightharpoonup> string) \<Rightarrow> bool" where
  "index_complete idx tab \<longleftrightarrow> (\<forall>i s. tab i = Some s \<longrightarrow> cstr s \<in> dom idx)"

definition counter_fresh :: "(num_id \<rightharpoonup> string) \<Rightarrow> num_id \<Rightarrow> bool" where
  "counter_fresh tab c \<longleftrightarrow> 0 < sint c \<and> (\<forall>i \<in> dom tab. sint i < sint c)"

definition coherent :: "(string \<rightharpoonup> num_id) \<Rightarrow> (num_id \<rightharpoonup> string) \<Rightarrow> num_id \<Rightarrow> bool" where
  "coherent idx tab c \<longleftrightarrow> index_sound idx tab \<and> index_complete idx tab \<and> counter_fresh tab c"

text \<open>No two ids of the table have the same C string.\<close>

definition unique_strings :: "(num_id \<rightharpoonup> string) \<Rightarrow> bool" where
  "unique_strings tab \<longleftrightarrow>
     (\<forall>i j s t. tab i = Some s \<longrightarrow> tab j = Some t \<longrightarrow> cstr s = cstr t \<longrightarrow> i = j)"

definition nul_free_table :: "(num_id \<rightharpoonup> string) \<Rightarrow> bool" where
  "nul_free_table tab \<longleftrightarrow> (\<forall>s \<in> ran tab. nul_free s)"

lemma coherentD:
  assumes "coherent idx tab c"
  shows "idx t = Some i \<Longrightarrow> \<exists>s. tab i = Some s \<and> cstr s = t"
    and "tab i = Some s \<Longrightarrow> cstr s \<in> dom idx"
    and "tab i = Some s \<Longrightarrow> sint i < sint c"
    and "0 < sint c"
  using assms
  by (auto simp: coherent_def index_sound_def index_complete_def counter_fresh_def)

lemma coherent_unique_index:
  assumes "coherent idx tab c" and "unique_strings tab" and "tab i = Some s"
  shows "idx (cstr s) = Some i"
proof -
  obtain j where j: "idx (cstr s) = Some j" using coherentD(2) [OF assms(1,3)] by blast
  then obtain s' where "tab j = Some s'" "cstr s' = cstr s" using coherentD(1) [OF assms(1)] by blast
  with assms(2,3) j show ?thesis unfolding unique_strings_def by blast
qed

lemma coherent_unique_determined:
  assumes "coherent idx tab c" and "coherent idx' tab c'" and "unique_strings tab"
  shows "idx = idx'"
proof
  fix t
  show "idx t = idx' t"
  proof (cases "idx t")
    case None
    then have "idx' t \<noteq> Some i" for i
      using coherentD(1) [OF assms(2)] coherentD(2) [OF assms(1)] by (metis domIff)
    with None show ?thesis by (metis not_None_eq)
  next
    case (Some i)
    then obtain s where "tab i = Some s" "cstr s = t" using coherentD(1) [OF assms(1)] by blast
    with Some show ?thesis using coherent_unique_index [OF assms(2,3)] by metis
  qed
qed

section \<open>A batch of requests\<close>

text \<open>
  \<open>intern idx c ss\<close>: the ids of the strings, the pairs that are new, the index and the
  counter afterwards.
\<close>

fun intern ::
  "(string \<rightharpoonup> num_id) \<Rightarrow> num_id \<Rightarrow> string list \<Rightarrow>
     num_id list \<times> kv_pair list \<times> (string \<rightharpoonup> num_id) \<times> num_id" where
  "intern idx c [] = ([], [], idx, c)"
| "intern idx c (s # ss) =
     (case idx (cstr s) of
        Some i \<Rightarrow>
          (case intern idx c ss of (ids, kvs, idx', c') \<Rightarrow> (i # ids, kvs, idx', c'))
      | None \<Rightarrow>
          (case intern (idx(cstr s \<mapsto> c)) (c + 1) ss of
             (ids, kvs, idx', c') \<Rightarrow> (c # ids, (c, s) # kvs, idx', c')))"

text \<open>The counter did not pass its maximum during the batch.\<close>

definition no_overflow :: "num_id \<Rightarrow> kv_pair list \<Rightarrow> bool" where
  "no_overflow c kvs \<longleftrightarrow> sint c + int (length kvs) < 2 ^ 63"

lemma no_overflow_Cons:
  assumes "no_overflow c (kv # kvs)"
  shows "c \<noteq> max_num_id" and "sint (c + 1) = sint c + 1" and "no_overflow (c + 1) kvs"
proof -
  show c: "c \<noteq> max_num_id" using assms by (auto simp: no_overflow_def)
  show "sint (c + 1) = sint c + 1" by (rule sint_num_id_plus_1 [OF c])
  then show "no_overflow (c + 1) kvs" using assms by (simp add: no_overflow_def)
qed

lemma coherent_insert:
  assumes "coherent idx tab c" and "idx (cstr s) = None" and "sint (c + 1) = sint c + 1"
  shows "coherent (idx(cstr s \<mapsto> c)) (tab(c \<mapsto> s)) (c + 1)"
proof -
  have "tab c = None" using coherentD(3) [OF assms(1), of c] by (cases "tab c") auto
  then have "index_sound (idx(cstr s \<mapsto> c)) (tab(c \<mapsto> s))"
    using assms(1) unfolding coherent_def index_sound_def by (metis fun_upd_apply option.sel option.simps(3))
  moreover have "index_complete (idx(cstr s \<mapsto> c)) (tab(c \<mapsto> s))"
    using assms(1) by (auto simp: coherent_def index_complete_def)
  moreover have "counter_fresh (tab(c \<mapsto> s)) (c + 1)"
  proof -
    have "sint i < sint (c + 1)" if "i \<in> dom (tab(c \<mapsto> s))" for i
      using that coherentD(3) [OF assms(1), of i] assms(3) by (auto split: if_splits)
    then show ?thesis
      using coherentD(4) [OF assms(1)] assms(3) by (simp add: counter_fresh_def del: fun_upd_apply)
  qed
  ultimately show ?thesis by (simp add: coherent_def)
qed

lemma unique_strings_insert:
  assumes "coherent idx tab c" and "idx (cstr s) = None" and "unique_strings tab"
  shows "unique_strings (tab(c \<mapsto> s))"
proof -
  have "cstr s' \<noteq> cstr s" if "tab i = Some s'" for i s'
    using coherentD(2) [OF assms(1) that] assms(2) by (metis domIff)
  with assms(3) show ?thesis by (fastforce simp: unique_strings_def)
qed

text \<open>Everything a batch guarantees, by one induction over it.\<close>

lemma intern_correct:
  assumes "intern idx c ss = (ids, kvs, idx', c')" and "no_overflow c kvs" and "coherent idx tab c"
  shows "coherent idx' (put_all tab kvs) c' \<and>
         idx \<subseteq>\<^sub>m idx' \<and> tab \<subseteq>\<^sub>m put_all tab kvs \<and>
         length ids = length ss \<and> (\<forall>j < length ss. idx' (cstr (ss ! j)) = Some (ids ! j)) \<and>
         (unique_strings tab \<longrightarrow> unique_strings (put_all tab kvs)) \<and>
         sint c' = sint c + int (length kvs)"
  using assms
proof (induction ss arbitrary: idx c ids kvs tab)
  case Nil
  then show ?case by simp
next
  case (Cons s ss)
  show ?case
  proof (cases "idx (cstr s)")
    case (Some i)
    with Cons.prems(1) obtain ids2 where r: "intern idx c ss = (ids2, kvs, idx', c')" "ids = i # ids2"
      by (auto split: prod.splits)
    note IH = Cons.IH [OF r(1) Cons.prems(2,3)]
    then have "idx' (cstr s) = Some i" using Some by (auto simp: map_le_def dom_def)
    with IH r(2) show ?thesis by (auto simp: nth_Cons split: nat.splits)
  next
    case None
    with Cons.prems(1) obtain ids2 kvs2
      where r: "intern (idx(cstr s \<mapsto> c)) (c + 1) ss = (ids2, kvs2, idx', c')"
        "ids = c # ids2" "kvs = (c, s) # kvs2"
      by (auto split: prod.splits)
    note ov = no_overflow_Cons [OF Cons.prems(2) [unfolded r(3)]]
    note IH = Cons.IH [OF r(1) ov(3) coherent_insert [OF Cons.prems(3) None ov(2)]]
    have fresh: "tab c = None" using coherentD(3) [OF Cons.prems(3), of c] by (cases "tab c") auto
    have "tab \<subseteq>\<^sub>m tab(c \<mapsto> s)" "idx \<subseteq>\<^sub>m idx(cstr s \<mapsto> c)"
      using fresh None by (auto simp: map_le_def)
    moreover have "idx' (cstr s) = Some c" using IH by (auto simp: map_le_def dom_def)
    moreover have "unique_strings tab \<longrightarrow> unique_strings (tab(c \<mapsto> s))"
      using unique_strings_insert [OF Cons.prems(3) None] by blast
    ultimately show ?thesis
      using IH r(2,3) ov(2)
      by (auto simp: nth_Cons simp del: fun_upd_apply split: nat.splits
          intro: map_le_trans)
  qed
qed

lemmas intern_coherent = intern_correct [THEN conjunct1]

lemma intern_kvs:
  assumes "intern idx c ss = (ids, kvs, idx', c')"
  shows "set (map snd kvs) \<subseteq> set ss" and "length kvs \<le> length ss"
proof -
  show "set (map snd kvs) \<subseteq> set ss" using assms
    by (induction ss arbitrary: idx c ids kvs) (fastforce split: option.splits prod.splits)+
  show "length kvs \<le> length ss" using assms
    by (induction ss arbitrary: idx c ids kvs) (fastforce split: option.splits prod.splits)+
qed

end
