(* ===== verification/Query_Types.thy ===== *)
theory Query_Types
  imports Prelude
begin

text \<open>
  The data of numerator.thrift as gen-cpp/numerator\_types.h declares it.  An enumeration
  value is an \<open>int\<close> in C++ and the generated reader casts any received number to it, so an
  operation or an error code is a 32-bit word and the enumerators are constants.  The
  generated comparison ignores the \<open>__isset\<close> flags.
\<close>

type_synonym operation = "32 word"
type_synonym error_code = "32 word"

definition STR2ID :: operation where "STR2ID = 1"
definition ID2STR :: operation where "ID2STR = 2"
definition STR2ID_QUERIES_DISABLED :: error_code where "STR2ID_QUERIES_DISABLED = 1"

lemma STR2ID_not_ID2STR [simp]: "STR2ID \<noteq> ID2STR" "ID2STR \<noteq> STR2ID"
  by (simp_all add: STR2ID_def ID2STR_def)

record query_isset =
  isset_strings :: bool
  isset_ids :: bool
  isset_failures :: bool

record query =
  q_op :: operation
  q_strings :: "string list"
  q_ids :: "num_id list"
  q_failures :: "failure_idx list"
  q_isset :: query_isset

definition Query_new :: query where
  "Query_new = \<lparr>q_op = 0, q_strings = [], q_ids = [], q_failures = [],
     q_isset = \<lparr>isset_strings = False, isset_ids = False, isset_failures = False\<rparr>\<rparr>"

definition Query_eq :: "query \<Rightarrow> query \<Rightarrow> bool" where
  "Query_eq a b \<longleftrightarrow>
     (if \<not> (q_op a = q_op b) then False
      else if \<not> (q_strings a = q_strings b) then False
      else if \<not> (q_ids a = q_ids b) then False
      else if \<not> (q_failures a = q_failures b) then False
      else True)"

record numerator_exception =
  ne_code :: error_code
  ne_message :: string
  ne_isset_message :: bool

definition NumeratorException_new :: numerator_exception where
  "NumeratorException_new = \<lparr>ne_code = 0, ne_message = [], ne_isset_message = False\<rparr>"

definition NumeratorException_eq :: "numerator_exception \<Rightarrow> numerator_exception \<Rightarrow> bool" where
  "NumeratorException_eq a b \<longleftrightarrow>
     (if \<not> (ne_code a = ne_code b) then False
      else if \<not> (ne_message a = ne_message b) then False
      else True)"

lemma Query_eq_iff:
  "Query_eq a b \<longleftrightarrow> a\<lparr>q_isset := i\<rparr> = b\<lparr>q_isset := i\<rparr>"
  by (cases a; cases b) (simp add: Query_eq_def)

lemma NumeratorException_eq_iff:
  "NumeratorException_eq a b \<longleftrightarrow> a\<lparr>ne_isset_message := i\<rparr> = b\<lparr>ne_isset_message := i\<rparr>"
  by (cases a; cases b) (simp add: NumeratorException_eq_def)

end
