(* ===== verification/Handler.thy ===== *)
theory Handler
  imports Interning Query_Types
begin

text \<open>
  numerator.cpp, the class \<open>NumeratorHandler\<close>: its references to the two storages, its
  options and the global counter \<open>cnt\<close> are the fields of \<open>handler\<close>.  Each operation takes
  the operations of the storages that it calls, so that the proofs of the locale
  \<open>numerator_service\<close> use their contracts only; \<open>NumeratorHandler_query\<close> and the two
  switches are the instances for \<open>MemoryStorage\<close> and \<open>DiskStorage\<close>.  The queries hold the
  mutex for their whole body, so a query is one step of this sequential model.
\<close>

record ('m, 'd) handler =
  memory_storage :: 'm
  disk_storage :: 'd
  disable_s2i_queries :: bool
  cnt :: num_id

text \<open>How a call of the handler ends: also by an exception, or by \<open>exit(EXIT_FAILURE)\<close>.\<close>

datatype 'a call =
    Returned 'a
  | ThrownNE numerator_exception
  | ThrownExc exc
  | Undefined ub
  | ProcessExit

fun raise :: "error \<Rightarrow> 'a call" where
  "raise (Exc x) = ThrownExc x"
| "raise (UB u) = Undefined u"

section \<open>The operations\<close>

text \<open>The loop of a string-to-id request; \<open>kv_pairs\<close> and \<open>ids\<close> are built with \<open>push_back\<close>.\<close>

fun s2i_loop ::
  "(string \<Rightarrow> num_id \<Rightarrow> 'm \<Rightarrow> (error + bool \<times> num_id) \<times> num_id \<times> 'm) \<Rightarrow> string list \<Rightarrow>
     kv_pair list \<Rightarrow> num_id list \<Rightarrow> num_id \<Rightarrow> 'm \<Rightarrow>
     (error + kv_pair list \<times> num_id list) \<times> num_id \<times> 'm" where
  "s2i_loop find_s [] kv_pairs ids c m = (Inr (kv_pairs, ids), c, m)"
| "s2i_loop find_s (str # rest) kv_pairs ids c m =
     (case find_s str c m of
        (Inl e, c', m') \<Rightarrow> (Inl e, c', m')
      | (Inr (inserted, i), c', m') \<Rightarrow>
          s2i_loop find_s rest (if inserted then kv_pairs @ [(i, str)] else kv_pairs)
            (ids @ [i]) c' m')"

definition s2i_disabled_exception :: numerator_exception where
  "s2i_disabled_exception =
     NumeratorException_new
       \<lparr>ne_code := STR2ID_QUERIES_DISABLED,
        ne_message := ''string -> id service disabled''\<rparr>"

definition query_impl ::
  "(string \<Rightarrow> num_id \<Rightarrow> 'm \<Rightarrow> (error + bool \<times> num_id) \<times> num_id \<times> 'm) \<Rightarrow>
   ('d \<Rightarrow> kv_pair list \<Rightarrow> (error + unit) \<times> 'd) \<Rightarrow>
   ('d \<Rightarrow> num_id list \<Rightarrow> error + string list \<times> failure_idx list) \<Rightarrow>
   query \<Rightarrow> query \<Rightarrow> ('m, 'd) handler \<Rightarrow> query call \<times> ('m, 'd) handler" where
  "query_impl find_s write lookup response request h =
     (if q_op request = ID2STR then
        (case lookup (disk_storage h) (q_ids request) of
           Inl e \<Rightarrow> (raise e, h)
         | Inr (values, failures) \<Rightarrow>
             (Returned (response\<lparr>q_strings := values, q_failures := failures,
                                 q_op := q_op request\<rparr>), h))
      else if q_op request = STR2ID then
        (if disable_s2i_queries h then (ThrownNE s2i_disabled_exception, h)
         else
           (case s2i_loop find_s (q_strings request) [] (q_ids response) (cnt h) (memory_storage h) of
              (Inl e, c, m) \<Rightarrow> (raise e, h\<lparr>memory_storage := m, cnt := c\<rparr>)
            | (Inr (kv_pairs, ids), c, m) \<Rightarrow>
                let h = h\<lparr>memory_storage := m, cnt := c\<rparr> in
                (case write (disk_storage h) kv_pairs of
                   (Inl e, d) \<Rightarrow> (raise e, h\<lparr>disk_storage := d\<rparr>)
                 | (Inr _, d) \<Rightarrow>
                     (Returned (response\<lparr>q_ids := ids, q_op := q_op request\<rparr>),
                      h\<lparr>disk_storage := d\<rparr>))))
      else (Returned (response\<lparr>q_op := q_op request\<rparr>), h))"

text \<open>\<open>query\<close>: a \<open>NumeratorException\<close> is rethrown, any other exception ends the process.\<close>

definition query_catch :: "query call \<times> ('m, 'd) handler \<Rightarrow> query call \<times> ('m, 'd) handler" where
  "query_catch r =
     (case r of
        (ThrownNE x, h) \<Rightarrow> (ThrownNE x, h)
      | (ThrownExc x, h) \<Rightarrow> (ProcessExit, h)
      | (c, h) \<Rightarrow> (c, h))"

definition disable_s2i :: "('m \<Rightarrow> 'm) \<Rightarrow> ('m, 'd) handler \<Rightarrow> unit call \<times> ('m, 'd) handler" where
  "disable_s2i unload h =
     (Returned (),
      if \<not> disable_s2i_queries h
      then h\<lparr>memory_storage := unload (memory_storage h), disable_s2i_queries := True\<rparr>
      else h)"

definition enable_s2i ::
  "('d \<Rightarrow> 'm \<Rightarrow> (error + num_id) \<times> 'm) \<Rightarrow> ('m, 'd) handler \<Rightarrow>
     unit call \<times> ('m, 'd) handler" where
  "enable_s2i load_in_memory h =
     (if disable_s2i_queries h then
        (case load_in_memory (disk_storage h) (memory_storage h) of
           (Inl e, m) \<Rightarrow> (raise e, h\<lparr>memory_storage := m\<rparr>)
         | (Inr _, m) \<Rightarrow> (Returned (), h\<lparr>memory_storage := m, disable_s2i_queries := False\<rparr>))
      else (Returned (), h))"

text \<open>
  Construction.  The handler has references to the storages and a copy of the options, whose
  one member is \<open>disable_s2i_queries\<close>; \<open>cnt\<close> is the static counter of the file.
\<close>

definition NumeratorHandlerOptions_new :: bool where
  "NumeratorHandlerOptions_new = False"

definition NumeratorHandler_new :: "'m \<Rightarrow> 'd \<Rightarrow> bool \<Rightarrow> num_id \<Rightarrow> ('m, 'd) handler" where
  "NumeratorHandler_new memory_storage' disk_storage' options' cnt' =
     \<lparr>memory_storage = memory_storage', disk_storage = disk_storage',
      disable_s2i_queries = options', cnt = cnt'\<rparr>"

declare NumeratorHandlerOptions_new_def [simp] NumeratorHandler_new_def [simp]

text \<open>The handler of the program, on its two storages.\<close>

type_synonym ('j, 'db) server = "('j memory_storage, 'db disk_storage) handler"

definition NumeratorHandler_query ::
  "'j judy \<Rightarrow> 'db leveldb \<Rightarrow> query \<Rightarrow> query \<Rightarrow> ('j, 'db) server \<Rightarrow>
     query call \<times> ('j, 'db) server" where
  "NumeratorHandler_query J L response request h =
     query_catch (query_impl (ms_find J) (ds_write L) (ds_lookup L) response request h)"

definition NumeratorHandler_ping :: "('j, 'db) server \<Rightarrow> unit call \<times> ('j, 'db) server" where
  "NumeratorHandler_ping h = (Returned (), h)"

definition NumeratorHandler_disable_s2i ::
  "'j judy \<Rightarrow> ('j, 'db) server \<Rightarrow> unit call \<times> ('j, 'db) server" where
  "NumeratorHandler_disable_s2i J h = disable_s2i (ms_unload J) h"

definition NumeratorHandler_enable_s2i ::
  "'j judy \<Rightarrow> 'db leveldb \<Rightarrow> num_id \<Rightarrow> ('j, 'db) server \<Rightarrow> unit call \<times> ('j, 'db) server" where
  "NumeratorHandler_enable_s2i J L junk h =
     enable_s2i (ds_load_in_memory L (ms_insert J) junk) h"

section \<open>The service over the contracts of its storages\<close>

context id_index
begin

text \<open>The loop of the handler computes \<open>intern\<close> on the contents of the index.\<close>

lemma s2i_loop_intern:
  assumes "ok e" and "s2i_loop (find e) ss kvs0 ids0 c m = (Inr (kvs, ids), c', m')"
  shows "\<exists>ids1 kvs1. intern (view e m) c ss = (ids1, kvs1, view e m', c') \<and>
           ids = ids0 @ ids1 \<and> kvs = kvs0 @ kvs1 \<and> no_overflow c kvs1"
  using assms(2)
proof (induction ss arbitrary: c m kvs0 ids0)
  case Nil
  then show ?case using sint_num_id_range(2) [of c] by (simp add: no_overflow_def)
next
  case (Cons s ss)
  obtain ins i c1 m1 where f: "find e s c m = (Inr (ins, i), c1, m1)"
    using Cons.prems by (auto split: prod.splits sum.splits)
  have "s2i_loop (find e) ss (if ins then kvs0 @ [(i, s)] else kvs0) (ids0 @ [i]) c1 m1
          = (Inr (kvs, ids), c', m')"
    using Cons.prems f by simp
  from Cons.IH [OF this] obtain ids1 kvs1
    where IH: "intern (view e m1) c1 ss = (ids1, kvs1, view e m', c')" "ids = (ids0 @ [i]) @ ids1"
      "kvs = (if ins then kvs0 @ [(i, s)] else kvs0) @ kvs1" "no_overflow c1 kvs1"
    by blast
  show ?case
  proof (cases "view e m (cstr s)")
    case None
    with find_absent [OF assms(1) f]
    have v: "ins" "i = c" "c \<noteq> max_num_id" "c1 = c + 1" "view e m1 = (view e m)(cstr s \<mapsto> c)"
      by auto
    have "no_overflow c ((c, s) # kvs1)"
      using IH(4) sint_num_id_plus_1 [OF v(3)] v(4) by (simp add: no_overflow_def)
    with None IH v show ?thesis by simp
  next
    case (Some j)
    with find_present [OF assms(1) f Some] IH show ?thesis by simp
  qed
qed

text \<open>Loading keeps a sound index sound, misses no pair and finds the greatest id.\<close>

lemma insert_all_index:
  assumes "ok e" and "insert_all (insert e) kvs mx m = (Inr mx', m')"
    and "index_sound (view e m) tab" and "\<forall>(i, s) \<in> set kvs. tab i = Some s"
  shows "index_sound (view e m') tab \<and> dom (view e m) \<subseteq> dom (view e m') \<and>
         (\<forall>(i, s) \<in> set kvs. cstr s \<in> dom (view e m') \<and> sint i \<le> sint mx') \<and>
         sint mx \<le> sint mx'"
  using assms(2,3,4)
proof (induction kvs arbitrary: mx m)
  case Nil
  then show ?case by simp
next
  case (Cons kv kvs)
  obtain i s where kv: "kv = (i, s)" by (cases kv)
  obtain m1 where f: "insert e s i m = (Inr (), m1)"
    using Cons.prems(1) kv by (auto split: prod.splits sum.splits)
  let ?mx = "if mx <s i then i else mx"
  have v: "view e m1 = (view e m)(cstr s \<mapsto> i)" by (rule insert_view [OF assms(1) f])
  have sound: "index_sound (view e m1) tab"
    using Cons.prems(2,3) kv v by (auto simp: index_sound_def)
  have "insert_all (insert e) kvs ?mx m1 = (Inr mx', m')" using Cons.prems(1) kv f by simp
  moreover have "\<forall>(i, s) \<in> set kvs. tab i = Some s" using Cons.prems(3) by simp
  ultimately have IH: "index_sound (view e m') tab" "dom (view e m1) \<subseteq> dom (view e m')"
    "\<forall>(i, s) \<in> set kvs. cstr s \<in> dom (view e m') \<and> sint i \<le> sint mx'" "sint ?mx \<le> sint mx'"
    using Cons.IH [OF _ sound] by blast+
  have "sint i \<le> sint ?mx" "sint mx \<le> sint ?mx" by (auto simp: word_sless_alt)
  then have "sint i \<le> sint mx'" "sint mx \<le> sint mx'" using IH(4) by linarith+
  moreover have "cstr s \<in> dom (view e m')" "dom (view e m) \<subseteq> dom (view e m')"
    using IH(2) v by auto
  ultimately show ?case using IH kv by simp
qed

end

text \<open>
  The state of the service is good when the index, while string-to-id queries are enabled, is
  exactly coherent with the table, and is at least sound while they are disabled; in both
  cases the counter is above every id of the table.
\<close>

definition service_inv ::
  "(string \<rightharpoonup> num_id) \<Rightarrow> (num_id \<rightharpoonup> string) \<Rightarrow> bool \<Rightarrow> num_id \<Rightarrow> bool" where
  "service_inv idx tab disabled c \<longleftrightarrow>
     (if disabled then index_sound idx tab \<and> counter_fresh tab c else coherent idx tab c)"

lemma service_inv_weak: "service_inv idx tab dis c \<Longrightarrow> index_sound idx tab \<and> counter_fresh tab c"
  by (auto simp: service_inv_def coherent_def split: if_splits)

locale numerator_service =
  index: id_index iok view find insert unload +
  store: id_store sok tab wf intact "write" lookup load
  for iok :: "'e \<Rightarrow> bool" and view :: "'e \<Rightarrow> 'm \<Rightarrow> string \<rightharpoonup> num_id"
    and find insert unload
    and sok :: "'f \<Rightarrow> bool" and tab :: "'f \<Rightarrow> 'd \<Rightarrow> num_id \<rightharpoonup> string"
    and wf intact "write" lookup
    and load :: "'f \<Rightarrow> (string \<Rightarrow> num_id \<Rightarrow> 'm \<Rightarrow> (error + unit) \<times> 'm) \<Rightarrow> num_id \<Rightarrow> 'd \<Rightarrow> 'm \<Rightarrow>
          (error + num_id) \<times> 'm"
begin

text \<open>A batch of string-to-id requests that was answered.\<close>

lemma s2i_step:
  assumes iok_e: "iok e" and sok_f: "sok f"
    and inv: "coherent (view e (memory_storage h)) (tab f (disk_storage h)) (cnt h)"
    and en: "\<not> disable_s2i_queries h" and op: "q_op request = STR2ID"
    and q: "query_impl (find e) (write f) (lookup f) response request h = (Returned resp, h')"
  shows "\<exists>ids. resp = response\<lparr>q_ids := q_ids response @ ids, q_op := STR2ID\<rparr> \<and>
           length ids = length (q_strings request) \<and>
           (\<forall>j < length (q_strings request).
              view e (memory_storage h') (cstr (q_strings request ! j)) = Some (ids ! j)) \<and>
           coherent (view e (memory_storage h')) (tab f (disk_storage h')) (cnt h') \<and>
           view e (memory_storage h) \<subseteq>\<^sub>m view e (memory_storage h') \<and>
           tab f (disk_storage h) \<subseteq>\<^sub>m tab f (disk_storage h') \<and>
           (unique_strings (tab f (disk_storage h)) \<longrightarrow> unique_strings (tab f (disk_storage h'))) \<and>
           (wf f (disk_storage h) \<longrightarrow> wf f (disk_storage h')) \<and>
           (\<forall>s \<in> ran (tab f (disk_storage h')).
              s \<in> ran (tab f (disk_storage h)) \<or> s \<in> set (q_strings request)) \<and>
           \<not> disable_s2i_queries h' \<and> sint (cnt h) \<le> sint (cnt h')"
proof -
  from q op en obtain kvs ids c m d
    where l: "s2i_loop (find e) (q_strings request) [] (q_ids response) (cnt h) (memory_storage h)
                = (Inr (kvs, ids), c, m)"
      and w: "write f (disk_storage h) kvs = (Inr (), d)"
      and resp: "resp = response\<lparr>q_ids := ids, q_op := STR2ID\<rparr>"
      and h': "h' = h\<lparr>memory_storage := m, cnt := c, disk_storage := d\<rparr>"
    by (auto simp: query_impl_def Let_def split: prod.splits sum.splits elim: raise.elims)
  from index.s2i_loop_intern [OF iok_e l] obtain ids1
    where i: "intern (view e (memory_storage h)) (cnt h) (q_strings request)
                = (ids1, kvs, view e m, c)" "ids = q_ids response @ ids1" "no_overflow (cnt h) kvs"
    by auto
  note ic = intern_correct [OF i(1,3) inv]
  have tab': "tab f d = put_all (tab f (disk_storage h)) kvs"
    by (rule store.write_tab [OF sok_f w])
  have "s \<in> ran (tab f (disk_storage h)) \<or> s \<in> set (q_strings request)"
    if "s \<in> ran (put_all (tab f (disk_storage h)) kvs)" for s
    using that intern_kvs(1) [OF i(1)] ran_put_all by fastforce
  then show ?thesis
    using ic tab' store.write_wf [OF sok_f w] i(2) resp h' en by auto
qed

text \<open>Every answered query keeps the service good and only adds to the table.\<close>

lemma query_step:
  assumes iok_e: "iok e" and sok_f: "sok f"
    and inv: "service_inv (view e (memory_storage h)) (tab f (disk_storage h))
                  (disable_s2i_queries h) (cnt h)"
    and wf: "wf f (disk_storage h)"
    and q: "query_impl (find e) (write f) (lookup f) response request h = (r, h')"
    and r: "r = Returned resp \<or> r = ThrownNE x"
  shows "service_inv (view e (memory_storage h')) (tab f (disk_storage h'))
           (disable_s2i_queries h') (cnt h') \<and>
         wf f (disk_storage h') \<and> tab f (disk_storage h) \<subseteq>\<^sub>m tab f (disk_storage h') \<and>
         (unique_strings (tab f (disk_storage h)) \<longrightarrow> unique_strings (tab f (disk_storage h')))"
proof (cases "q_op request = STR2ID \<and> \<not> disable_s2i_queries h")
  case True
  then have co: "coherent (view e (memory_storage h)) (tab f (disk_storage h)) (cnt h)"
    using inv by (simp add: service_inv_def)
  have "r \<noteq> ThrownNE x"
    using q True by (auto simp: query_impl_def Let_def split: prod.splits sum.splits elim: raise.elims)
  then have "query_impl (find e) (write f) (lookup f) response request h = (Returned resp, h')"
    using q r by simp
  from s2i_step [OF iok_e sok_f co _ _ this] True wf show ?thesis by (auto simp: service_inv_def)
next
  case False
  then have "h' = h"
    using q by (auto simp: query_impl_def split: sum.splits prod.splits if_splits)
  with inv wf show ?thesis by simp
qed

lemma i2s_step:
  assumes sok_f: "sok f" and op: "q_op request = ID2STR"
    and q: "query_impl (find e) (write f) (lookup f) response request h = (Returned resp, h')"
  shows "resp = response\<lparr>q_strings := lookup_values (tab f (disk_storage h)) (q_ids request),
                         q_failures := lookup_failures (tab f (disk_storage h)) 0 (q_ids request),
                         q_op := ID2STR\<rparr>"
    and "h' = h"
  using q op store.lookup_tab [OF sok_f]
  by (auto simp: query_impl_def split: sum.splits prod.splits elim: raise.elims)

lemma disable_step:
  assumes iok_e: "iok e"
    and inv: "service_inv (view e (memory_storage h)) (tab f (disk_storage h))
                  (disable_s2i_queries h) (cnt h)"
    and "disable_s2i (unload e) h = (r, h')"
  shows "service_inv (view e (memory_storage h')) (tab f (disk_storage h')) True (cnt h') \<and>
         disable_s2i_queries h' \<and> disk_storage h' = disk_storage h \<and> cnt h' = cnt h"
  using assms service_inv_weak [OF inv] index.unload_view [OF iok_e]
  by (auto simp: disable_s2i_def service_inv_def index_sound_def split: if_splits)

text \<open>What loading a table into a sound index gives.\<close>

lemma load_coherent:
  assumes iok_e: "iok e" and sok_f: "sok f" and wf: "wf f d" and intact: "intact f d" and sound: "index_sound (view e m) (tab f d)"
    and l: "load f (insert e) junk d m = (Inr mx, m')"
  shows "index_sound (view e m') (tab f d)" and "index_complete (view e m') (tab f d)"
    and "0 \<le> sint mx" and "\<forall>i \<in> dom (tab f d). sint i \<le> sint mx"
proof -
  obtain kvs where kvs: "distinct (map fst kvs)" "map_of kvs = tab f d"
    "insert_all (insert e) kvs 0 m = (Inr mx, m')"
    using store.load_tab [OF sok_f wf intact l] by blast
  have mem: "(i, s) \<in> set kvs \<longleftrightarrow> tab f d i = Some s" for i s
    using kvs(1,2) by (metis map_of_eq_Some_iff)
  note res = index.insert_all_index [OF iok_e kvs(3) sound]
  show "index_sound (view e m') (tab f d)" using res mem by blast
  show "index_complete (view e m') (tab f d)" using res mem by (fastforce simp: index_complete_def)
  show "0 \<le> sint mx" using res mem by auto
  show "\<forall>i \<in> dom (tab f d). sint i \<le> sint mx" using res mem by fastforce
qed

lemma enable_step:
  assumes iok_e: "iok e" and sok_f: "sok f"
    and inv: "service_inv (view e (memory_storage h)) (tab f (disk_storage h))
                  (disable_s2i_queries h) (cnt h)"
    and wf: "wf f (disk_storage h)" and intact: "intact f (disk_storage h)"
    and en: "enable_s2i (load f (insert e) junk) h = (Returned (), h')"
  shows "coherent (view e (memory_storage h')) (tab f (disk_storage h')) (cnt h') \<and>
         \<not> disable_s2i_queries h' \<and> disk_storage h' = disk_storage h \<and> cnt h' = cnt h"
proof (cases "disable_s2i_queries h")
  case False
  with inv en show ?thesis by (simp add: enable_s2i_def service_inv_def)
next
  case True
  with en obtain mx m
    where l: "load f (insert e) junk (disk_storage h) (memory_storage h) = (Inr mx, m)"
      and h': "h' = h\<lparr>memory_storage := m, disable_s2i_queries := False\<rparr>"
    by (auto simp: enable_s2i_def split: prod.splits sum.splits elim: raise.elims)
  note weak = service_inv_weak [OF inv]
  from load_coherent [OF iok_e sok_f wf intact conjunct1 [OF weak] l] weak h' show ?thesis
    by (simp add: coherent_def)
qed

end

interpretation svc: numerator_service judy_ok ms_view ms_find ms_insert ms_unload
    leveldb_ok ds_view ds_wf ds_intact ds_write ds_lookup ds_load_in_memory
  by unfold_locales

end
