(* ===== verification/Server.thy ===== *)
theory Server
  imports Handler
begin

text \<open>
  The server process on its two storages: the start-up part of \<open>main\<close> in numerator.cpp, the
  requests of the service as one step function, sequential runs of requests, and the
  properties that span the storages and the handler.
\<close>

section \<open>Start-up\<close>

text \<open>
  The part of \<open>main\<close> between the logger and the Thrift server: open the database; unless
  string-to-id queries are disabled, fill the index and set the counter to the greatest id
  plus one (\<open>cnt\<close> is static, so it is 0 otherwise).  An exception ends the process.
\<close>

definition server_start ::
  "'j judy \<Rightarrow> 'db leveldb \<Rightarrow> string \<Rightarrow> 32 word \<Rightarrow> bool \<Rightarrow> num_id \<Rightarrow> ('j, 'db) server call" where
  "server_start J L data_dir cache disable_s2i_opt junk =
     (case ds_init L data_dir cache ds_new of
        (Inl (Exc _), _) \<Rightarrow> ProcessExit
      | (Inl (UB u), _) \<Rightarrow> Undefined u
      | (Inr _, ds) \<Rightarrow>
          if disable_s2i_opt then
            Returned (NumeratorHandler_new (ms_new J) ds True 0)
          else
            (case ds_load_in_memory L (ms_insert J) junk ds (ms_new J) of
               (Inl (Exc _), _) \<Rightarrow> ProcessExit
             | (Inl (UB u), _) \<Rightarrow> Undefined u
             | (Inr max_id, ms) \<Rightarrow>
                 if max_id = max_num_id then Undefined SignedOverflow
                 else Returned (NumeratorHandler_new ms ds NumeratorHandlerOptions_new (max_id + 1))))"

section \<open>Requests and runs\<close>

text \<open>
  The response object that the generated processor passes to \<open>query\<close> is a fresh one; the
  argument of \<open>ReqEnable\<close> is the indeterminate value of the loader's local variable.
\<close>

datatype request = ReqPing | ReqQuery query | ReqDisable | ReqEnable num_id

datatype reply = RepQuery "query call" | RepUnit "unit call"

fun serve ::
  "'j judy \<Rightarrow> 'db leveldb \<Rightarrow> request \<Rightarrow> ('j, 'db) server \<Rightarrow> reply \<times> ('j, 'db) server" where
  "serve J L ReqPing h = map_prod RepUnit id (NumeratorHandler_ping h)"
| "serve J L (ReqQuery q) h = map_prod RepQuery id (NumeratorHandler_query J L Query_new q h)"
| "serve J L ReqDisable h = map_prod RepUnit id (NumeratorHandler_disable_s2i J h)"
| "serve J L (ReqEnable junk) h = map_prod RepUnit id (NumeratorHandler_enable_s2i J L junk h)"

text \<open>The call came back to the client with a result or with the declared exception.\<close>

fun answered :: "reply \<Rightarrow> bool" where
  "answered (RepQuery (Returned _)) = True"
| "answered (RepQuery (ThrownNE _)) = True"
| "answered (RepUnit (Returned _)) = True"
| "answered _ = False"

text \<open>A run: requests served one after the other, each of them answered.\<close>

inductive run ::
  "'j judy \<Rightarrow> 'db leveldb \<Rightarrow> ('j, 'db) server \<Rightarrow> (request \<times> reply) list \<Rightarrow>
     ('j, 'db) server \<Rightarrow> bool"
  for J L where
  run_Nil: "run J L h [] h"
| run_Cons: "serve J L req h = (rep, h1) \<Longrightarrow> answered rep \<Longrightarrow> run J L h1 tr h2 \<Longrightarrow>
     run J L h ((req, rep) # tr) h2"

inductive_cases run_ConsE: "run J L h ((req, rep) # tr) h2"
inductive_simps run_Nil_iff: "run J L h [] h2"

abbreviation srv_view :: "'j judy \<Rightarrow> ('j, 'db) server \<Rightarrow> string \<rightharpoonup> num_id" where
  "srv_view J h \<equiv> ms_view J (memory_storage h)"

abbreviation srv_tab :: "'db leveldb \<Rightarrow> ('j, 'db) server \<Rightarrow> num_id \<rightharpoonup> string" where
  "srv_tab L h \<equiv> ds_view L (disk_storage h)"

text \<open>
  What a running server keeps; every iteration over a table ends without an error, so that
  switching the queries on again sees the whole table.
\<close>

definition server_inv :: "'j judy \<Rightarrow> 'db leveldb \<Rightarrow> ('j, 'db) server \<Rightarrow> bool" where
  "server_inv J L h \<longleftrightarrow>
     ds_wf L (disk_storage h) \<and>
     service_inv (srv_view J h) (srv_tab L h) (disable_s2i_queries h) (cnt h)"

definition libs_ok :: "'j judy \<Rightarrow> 'db leveldb \<Rightarrow> bool" where
  "libs_ok J L \<longleftrightarrow> judy_ok J \<and> leveldb_ok L \<and> (\<forall>d. snd (ldb_Iterate L False d) = StOk)"

definition libs_no_error :: "'j judy \<Rightarrow> 'db leveldb \<Rightarrow> bool" where
  "libs_no_error J L \<longleftrightarrow> judy_no_error J \<and> leveldb_no_error L"

lemma libs_ok_alist [simp]: "libs_ok alist_judy alist_db" "libs_no_error alist_judy alist_db"
  by (simp_all add: libs_ok_def libs_no_error_def) (simp add: alist_db_def)

lemma libs_okD:
  assumes "libs_ok J L"
  shows "judy_ok J" and "leveldb_ok L" and "ds_wf L ds \<Longrightarrow> ds_intact L ds"
  using assms by (auto simp: libs_ok_def ds_wf_def ds_intact_def)

lemma server_inv_coherent:
  "server_inv J L h \<Longrightarrow> \<not> disable_s2i_queries h \<Longrightarrow> coherent (srv_view J h) (srv_tab L h) (cnt h)"
  by (simp add: server_inv_def service_inv_def)

lemma query_answered:
  "NumeratorHandler_query J L resp q h = (c, h') \<Longrightarrow> answered (RepQuery c) \<Longrightarrow>
   query_impl (ms_find J) (ds_write L) (ds_lookup L) resp q h = (c, h')"
  by (auto simp: NumeratorHandler_query_def query_catch_def split: prod.splits call.splits)

text \<open>One answered request keeps the invariant and the table's entries.\<close>

lemma serve_inv:
  assumes "libs_ok J L" and inv: "server_inv J L h"
    and s: "serve J L req h = (rep, h')" and a: "answered rep"
  shows "server_inv J L h' \<and> srv_tab L h \<subseteq>\<^sub>m srv_tab L h' \<and>
         (unique_strings (srv_tab L h) \<longrightarrow> unique_strings (srv_tab L h'))"
proof (cases req)
  case ReqPing
  with s inv show ?thesis by (auto simp: NumeratorHandler_ping_def)
next
  case (ReqQuery q)
  with s obtain c where c: "NumeratorHandler_query J L Query_new q h = (c, h')" "rep = RepQuery c"
    by (auto simp: map_prod_def split: prod.splits)
  then obtain resp x where "c = Returned resp \<or> c = ThrownNE x" using a by (cases c) auto
  with svc.query_step [OF libs_okD(1,2) [OF assms(1)] _ _ query_answered [OF c(1) a [unfolded c(2)]]]
    inv show ?thesis by (auto simp: server_inv_def)
next
  case ReqDisable
  with s obtain r where d: "disable_s2i (ms_unload J) h = (r, h')"
    by (auto simp: NumeratorHandler_disable_s2i_def map_prod_def split: prod.splits)
  with svc.disable_step [OF libs_okD(1) [OF assms(1)] _ d, of L] inv
  show ?thesis by (auto simp: server_inv_def)
next
  case (ReqEnable junk)
  with s a have d: "enable_s2i (ds_load_in_memory L (ms_insert J) junk) h = (Returned (), h')"
    by (auto simp: NumeratorHandler_enable_s2i_def map_prod_def split: prod.splits elim: answered.elims)
  have i: "service_inv (srv_view J h) (srv_tab L h) (disable_s2i_queries h) (cnt h)"
    "ds_wf L (disk_storage h)"
    using inv by (simp_all add: server_inv_def)
  from svc.enable_step [OF libs_okD(1,2) [OF assms(1)] i libs_okD(3) [OF assms(1) i(2)] d]
  have "coherent (srv_view J h') (srv_tab L h') (cnt h')" "\<not> disable_s2i_queries h'"
    "disk_storage h' = disk_storage h" by blast+
  with i(2) show ?thesis by (simp add: server_inv_def service_inv_def)
qed

lemma run_inv:
  assumes "libs_ok J L"
  shows "run J L h tr h' \<Longrightarrow> server_inv J L h \<Longrightarrow>
         server_inv J L h' \<and> srv_tab L h \<subseteq>\<^sub>m srv_tab L h' \<and>
         (unique_strings (srv_tab L h) \<longrightarrow> unique_strings (srv_tab L h'))"
proof (induction rule: run.induct)
  case (run_Nil h)
  then show ?case by simp
next
  case (run_Cons req h rep h1 tr h2)
  with serve_inv [OF assms, of h req rep h1] show ?case by (auto intro: map_le_trans)
qed

section \<open>A query on healthy libraries returns\<close>

lemma s2i_loop_returns:
  assumes "judy_no_error J" and "sint c + int (length ss) < 2 ^ 63"
  shows "\<exists>r c' m'. s2i_loop (ms_find J) ss kvs ids c m = (Inr r, c', m')"
  using assms(2)
proof (induction ss arbitrary: c m kvs ids)
  case Nil
  then show ?case by auto
next
  case (Cons s ss)
  have c: "c \<noteq> max_num_id" using Cons.prems by auto
  obtain ins i c1 m1 where f: "ms_find J s c m = (Inr (ins, i), c1, m1)"
    using ms_find_returns [OF assms(1) c] by blast
  have "c1 = c \<or> c1 = c + 1"
    using f by (auto simp: ms_find_def split: prod.splits if_splits judy_ptr.splits)
  then have "sint c1 \<le> sint c + 1" using sint_num_id_plus_1 [OF c] by auto
  then have "sint c1 + int (length ss) < 2 ^ 63" using Cons.prems by simp
  from Cons.IH [OF this] f show ?case by simp
qed

lemma s2i_query_returns:
  assumes "libs_no_error J L" and "ds_wf L (disk_storage h)" and "\<not> disable_s2i_queries h"
    and "q_op q = STR2ID" and "sint (cnt h) + int (length (q_strings q)) < 2 ^ 63"
  shows "\<exists>resp h'. query_impl (ms_find J) (ds_write L) (ds_lookup L) response q h = (Returned resp, h')"
proof -
  obtain kvs ids c m where l: "s2i_loop (ms_find J) (q_strings q) [] (q_ids response) (cnt h)
      (memory_storage h) = (Inr (kvs, ids), c, m)"
    using s2i_loop_returns [OF _ assms(5)] assms(1) unfolding libs_no_error_def by (metis surj_pair)
  obtain d where d: "db (disk_storage h) = Some d" using assms(2) by (auto simp: ds_wf_def)
  obtain d' where "ldb_Write L d (kv_batch kvs) = (StOk, d')"
    using assms(1) unfolding libs_no_error_def leveldb_no_error_def by (metis prod.collapse)
  with d have "ds_write L (disk_storage h) kvs = (Inr (), (disk_storage h)\<lparr>db := Some d'\<rparr>)"
    by (simp add: ds_write_def)
  with l assms(3,4) show ?thesis by (simp add: query_impl_def Let_def)
qed

lemma i2s_query_returns:
  assumes "libs_ok J L" and "libs_no_error J L" and "ds_wf L (disk_storage h)"
    and "q_op q = ID2STR" and "length (q_ids q) < 2 ^ 31"
  shows "NumeratorHandler_query J L Query_new q h =
           (Returned (Query_new\<lparr>q_op := ID2STR,
              q_strings := lookup_values (srv_tab L h) (q_ids q),
              q_failures := lookup_failures (srv_tab L h) 0 (q_ids q)\<rparr>), h)"
proof -
  obtain d where "db (disk_storage h) = Some d" using assms(3) by (auto simp: ds_wf_def)
  with ds_lookup_returns [of L "disk_storage h" d "q_ids q"] assms show ?thesis
    by (simp add: NumeratorHandler_query_def query_catch_def query_impl_def libs_ok_def
        libs_no_error_def)
qed

section \<open>Properties\<close>

text \<open>
  C1. A string-to-id query, on a good server with healthy libraries, the queries enabled and
  room in the counter, is always answered, with one id per string in order.  A string that
  had an id keeps it; a new string gets an id the table did not hold.  After the answer every
  returned id is in the table with the string it stands for, equal ids were given exactly to
  equal (C) strings, no entry of the table was lost, and the server is good again.
\<close>

theorem s2i_query_correct:
  assumes "libs_ok J L" and "libs_no_error J L" and "server_inv J L h"
    and "\<not> disable_s2i_queries h" and "q_op q = STR2ID"
    and "sint (cnt h) + int (length (q_strings q)) < 2 ^ 63"
  shows "\<exists>ids h'. NumeratorHandler_query J L Query_new q h =
             (Returned (Query_new\<lparr>q_op := STR2ID, q_ids := ids\<rparr>), h') \<and>
           server_inv J L h' \<and> \<not> disable_s2i_queries h' \<and> srv_tab L h \<subseteq>\<^sub>m srv_tab L h' \<and>
           length ids = length (q_strings q) \<and>
           (\<forall>j < length (q_strings q).
              (case srv_view J h (cstr (q_strings q ! j)) of
                 Some i \<Rightarrow> ids ! j = i
               | None \<Rightarrow> srv_tab L h (ids ! j) = None) \<and>
              (\<exists>s. srv_tab L h' (ids ! j) = Some s \<and> cstr s = cstr (q_strings q ! j)) \<and>
              (\<forall>k < length (q_strings q).
                 ids ! j = ids ! k \<longleftrightarrow> cstr (q_strings q ! j) = cstr (q_strings q ! k)))"
proof -
  note ok = libs_okD(1,2) [OF assms(1)]
  have wf: "ds_wf L (disk_storage h)" using assms(3) by (simp add: server_inv_def)
  obtain resp h' where q: "query_impl (ms_find J) (ds_write L) (ds_lookup L) Query_new q h
      = (Returned resp, h')"
    using s2i_query_returns [OF assms(2) wf assms(4,5,6)] by blast
  note co = server_inv_coherent [OF assms(3,4)]
  from svc.s2i_step [OF ok co assms(4,5) q] wf obtain ids
    where r: "resp = Query_new\<lparr>q_ids := ids, q_op := STR2ID\<rparr>" "length ids = length (q_strings q)"
      and view: "\<forall>j < length (q_strings q). srv_view J h' (cstr (q_strings q ! j)) = Some (ids ! j)"
      and co': "coherent (srv_view J h') (srv_tab L h') (cnt h')"
      and le: "srv_view J h \<subseteq>\<^sub>m srv_view J h'" "srv_tab L h \<subseteq>\<^sub>m srv_tab L h'"
      and st: "ds_wf L (disk_storage h')" "\<not> disable_s2i_queries h'"
    by (auto simp: Query_new_def)
  have answer: "\<exists>s. srv_tab L h' (ids ! j) = Some s \<and> cstr s = cstr (q_strings q ! j)"
    if "j < length (q_strings q)" for j
    using coherentD(1) [OF co'] view that by blast
  have old: "case srv_view J h (cstr (q_strings q ! j)) of
      Some i \<Rightarrow> ids ! j = i | None \<Rightarrow> srv_tab L h (ids ! j) = None"
    if j: "j < length (q_strings q)" for j
  proof (cases "srv_view J h (cstr (q_strings q ! j))")
    case None
    have "srv_tab L h (ids ! j) \<noteq> Some s" for s
      using coherentD(2) [OF co, of "ids ! j" s] answer [OF j] le(2) None
      by (auto simp: map_le_def dom_def)
    with None show ?thesis by (metis not_None_eq option.simps(4))
  next
    case (Some i)
    then have "srv_view J h' (cstr (q_strings q ! j)) = Some i"
      using le(1) by (auto simp: map_le_def dom_def)
    with view j Some show ?thesis by simp
  qed
  have eq: "ids ! j = ids ! k \<longleftrightarrow> cstr (q_strings q ! j) = cstr (q_strings q ! k)"
    if "j < length (q_strings q)" "k < length (q_strings q)" for j k
    using view that answer by (metis option.inject)
  show ?thesis
    using q r old answer eq co' le st
    by (intro exI [of _ ids] exI [of _ h'])
       (simp add: NumeratorHandler_query_def query_catch_def server_inv_def service_inv_def)
qed

definition empty_server :: "((string \<times> num_id) list, (string \<times> string) list) server" where
  "empty_server = \<lparr>memory_storage = ms_new alist_judy, disk_storage = ds_new\<lparr>db := Some []\<rparr>,
     disable_s2i_queries = False, cnt = 1\<rparr>"

lemma empty_server_inv: "server_inv alist_judy alist_db empty_server"
  by (simp add: server_inv_def service_inv_def coherent_def index_sound_def index_complete_def
      counter_fresh_def empty_server_def ds_wf_def)
     (simp add: alist_db_def)

lemma empty_server_simps [simp]:
  "disable_s2i_queries empty_server = False" "cnt empty_server = 1"
  "srv_tab alist_db empty_server = Map.empty" "srv_view alist_judy empty_server = Map.empty"
  by (simp_all add: empty_server_def) (simp add: alist_db_def)

theorem s2i_query_correct_witness:
  "\<exists>ids h'. NumeratorHandler_query alist_judy alist_db Query_new
       (Query_new\<lparr>q_op := STR2ID, q_strings := [''A'', ''B'', ''A'']\<rparr>) empty_server =
         (Returned (Query_new\<lparr>q_op := STR2ID, q_ids := ids\<rparr>), h') \<and>
       server_inv alist_judy alist_db h' \<and> length ids = 3 \<and> ids ! 0 = ids ! 2"
proof -
  let ?q = "Query_new\<lparr>q_op := STR2ID, q_strings := [''A'', ''B'', ''A'']\<rparr>"
  have "sint (cnt empty_server) + int (length (q_strings ?q)) < 2 ^ 63" by simp
  from s2i_query_correct [OF libs_ok_alist empty_server_inv _ _ this]
  obtain ids h' where
    "NumeratorHandler_query alist_judy alist_db Query_new ?q empty_server =
       (Returned (Query_new\<lparr>q_op := STR2ID, q_ids := ids\<rparr>), h')"
    "server_inv alist_judy alist_db h'" "length ids = length (q_strings ?q)"
    "\<forall>j < 3. \<forall>k < 3. ids ! j = ids ! k \<longleftrightarrow> cstr (q_strings ?q ! j) = cstr (q_strings ?q ! k)"
    by auto
  then show ?thesis
    by (intro exI [of _ ids] exI [of _ h']) (auto dest: spec [of _ 0] simp: numeral_eq_Suc)
qed

lemma cstr_table_eq:
  "nul_free_table tab \<Longrightarrow> tab i = Some s \<Longrightarrow> nul_free t \<Longrightarrow> cstr s = cstr t \<Longrightarrow> s = t"
  by (metis cstr_nul_free nul_free_table_def ranI)

lemma i2s_inverts_s2i:
  assumes "libs_ok J L" and "libs_no_error J L" and "server_inv J L h"
    and "\<not> disable_s2i_queries h" and "q_op q = STR2ID"
    and "length (q_strings q) < 2 ^ 31"
    and "NumeratorHandler_query J L Query_new q h = (Returned resp, h')"
    and "nul_free_table (srv_tab L h)" and "\<forall>s \<in> set (q_strings q). nul_free s"
  shows "NumeratorHandler_query J L Query_new (Query_new\<lparr>q_op := ID2STR, q_ids := q_ids resp\<rparr>) h' =
           (Returned (Query_new\<lparr>q_op := ID2STR, q_strings := q_strings q\<rparr>), h')"
proof -
  note ok = libs_okD(1,2) [OF assms(1)]
  have wf: "ds_wf L (disk_storage h)" using assms(3) by (simp add: server_inv_def)
  have q: "query_impl (ms_find J) (ds_write L) (ds_lookup L) Query_new q h = (Returned resp, h')"
    using query_answered [OF assms(7)] by simp
  from svc.s2i_step [OF ok server_inv_coherent [OF assms(3,4)] assms(4,5) q] wf
  have view: "\<forall>j < length (q_strings q).
        srv_view J h' (cstr (q_strings q ! j)) = Some (q_ids resp ! j)"
    and len: "length (q_ids resp) = length (q_strings q)"
    and co': "coherent (srv_view J h') (srv_tab L h') (cnt h')"
    and wf': "ds_wf L (disk_storage h')"
    and nul: "nul_free_table (srv_tab L h')"
    using assms(8,9) by (auto simp: Query_new_def nul_free_table_def)
  have stored: "srv_tab L h' (q_ids resp ! j) = Some (q_strings q ! j)"
    if j: "j < length (q_strings q)" for j
  proof -
    obtain s where "srv_tab L h' (q_ids resp ! j) = Some s" "cstr s = cstr (q_strings q ! j)"
      using coherentD(1) [OF co'] view j by blast
    with cstr_table_eq [OF nul] assms(9) j show ?thesis by (metis nth_mem)
  qed
  have "lookup_values (srv_tab L h') (q_ids resp) = q_strings q"
    using stored len by (intro nth_equalityI) (simp_all add: lookup_values_def)
  moreover have "lookup_failures (srv_tab L h') 0 (q_ids resp) = []"
    using stored len by (simp add: lookup_failures_def filter_empty_conv)
  ultimately show ?thesis
    using i2s_query_returns [OF assms(1,2) wf',
        of "Query_new\<lparr>q_op := ID2STR, q_ids := q_ids resp\<rparr>"] len assms(6)
    by (simp add: Query_new_def)
qed

text \<open>
  C2. String to id and back: when neither the stored strings nor the requested ones contain a
  NUL, asking an answered string-to-id query's ids back gives exactly the requested strings,
  in order, with no failures, and leaves the server as it is.
\<close>

theorem s2i_i2s_roundtrip:
  assumes "libs_ok J L" and "libs_no_error J L" and "server_inv J L h"
    and "\<not> disable_s2i_queries h" and "q_op q = STR2ID"
    and "length (q_strings q) < 2 ^ 31"
    and "NumeratorHandler_query J L Query_new q h = (Returned resp, h')"
    and "nul_free_table (srv_tab L h)" and "\<forall>s \<in> set (q_strings q). nul_free s"
  shows "NumeratorHandler_query J L Query_new (Query_new\<lparr>q_op := ID2STR, q_ids := q_ids resp\<rparr>) h' =
           (Returned (Query_new\<lparr>q_op := ID2STR, q_strings := q_strings q\<rparr>), h')"
  by (rule i2s_inverts_s2i [OF assms])

definition demo_query :: query where
  "demo_query = Query_new\<lparr>q_op := STR2ID, q_strings := [''A'', ''B'']\<rparr>"

definition demo_server :: "((string \<times> num_id) list, (string \<times> string) list) server" where
  "demo_server =
      \<lparr>memory_storage = \<lparr>data = [(''B'', 2), (''B'', 0), (''A'', 1), (''A'', 0)], value = Some ''B''\<rparr>,
       disk_storage = ds_new\<lparr>db := Some [(id_bytes 1, ''A''), (id_bytes 2, ''B'')]\<rparr>,
       disable_s2i_queries = False, cnt = 3\<rparr>"

lemma demo_query_reply:
  "NumeratorHandler_query alist_judy alist_db Query_new demo_query empty_server =
     (Returned (Query_new\<lparr>q_op := STR2ID, q_ids := [1, 2]\<rparr>), demo_server)"
  by (simp add: NumeratorHandler_query_def query_catch_def query_impl_def demo_query_def Query_new_def
      empty_server_def demo_server_def ms_find_def ms_new_def alist_judy_def cstr_def max_num_id_def
      ds_write_def alist_db_def ds_new_def kv_batch_def alist_put_def)

theorem s2i_i2s_roundtrip_witness:
  "NumeratorHandler_query alist_judy alist_db Query_new
      (Query_new\<lparr>q_op := ID2STR, q_ids := [1, 2]\<rparr>) demo_server =
      (Returned (Query_new\<lparr>q_op := ID2STR, q_strings := [''A'', ''B'']\<rparr>), demo_server)"
proof -
  have q: "q_op demo_query = STR2ID" "length (q_strings demo_query) < 2 ^ 31"
    "q_strings demo_query = [''A'', ''B'']"
    by (simp_all add: demo_query_def)
  have nul: "nul_free_table (srv_tab alist_db empty_server)"
    "\<forall>s \<in> set (q_strings demo_query). nul_free s"
    by (simp_all add: q(3) nul_free_table_def nul_free_def)
  from s2i_i2s_roundtrip [OF libs_ok_alist empty_server_inv _ q(1,2) demo_query_reply nul]
  show ?thesis by (simp add: q(3))
qed

lemma s2i_returned_enabled:
  "NumeratorHandler_query J L response q h = (Returned resp, h') \<Longrightarrow> q_op q = STR2ID \<Longrightarrow>
   \<not> disable_s2i_queries h"
  by (auto simp: NumeratorHandler_query_def query_catch_def query_impl_def
      split: prod.splits call.splits if_splits)

lemma s2i_returned_view:
  assumes "libs_ok J L" and "server_inv J L h" and "q_op q = STR2ID"
    and "NumeratorHandler_query J L Query_new q h = (Returned resp, h')"
    and "j < length (q_strings q)"
  shows "srv_view J h' (cstr (q_strings q ! j)) = Some (q_ids resp ! j)"
    and "\<not> disable_s2i_queries h'" and "server_inv J L h'" and "length (q_ids resp) = length (q_strings q)"
    and "srv_view J h \<subseteq>\<^sub>m srv_view J h'"
    and "unique_strings (srv_tab L h) \<Longrightarrow> unique_strings (srv_tab L h')"
proof -
  note en = s2i_returned_enabled [OF assms(4,3)]
  have q: "query_impl (ms_find J) (ds_write L) (ds_lookup L) Query_new q h = (Returned resp, h')"
    using query_answered [OF assms(4)] by simp
  note st = svc.s2i_step [OF libs_okD(1,2) [OF assms(1)] server_inv_coherent [OF assms(2) en]
      en assms(3) q]
  with assms(2,5) show "srv_view J h' (cstr (q_strings q ! j)) = Some (q_ids resp ! j)"
    "\<not> disable_s2i_queries h'" "server_inv J L h'" "length (q_ids resp) = length (q_strings q)"
    "srv_view J h \<subseteq>\<^sub>m srv_view J h'"
    "unique_strings (srv_tab L h) \<Longrightarrow> unique_strings (srv_tab L h')"
    by (auto simp: Query_new_def server_inv_def service_inv_def)
qed

lemma index_survives:
  assumes "libs_ok J L" and "server_inv J L h" and "unique_strings (srv_tab L h)"
    and "\<not> disable_s2i_queries h" and "srv_view J h t = Some i"
    and "run J L h tr h'" and "\<not> disable_s2i_queries h'"
  shows "srv_view J h' t = Some i"
proof -
  from run_inv [OF assms(1,6,2)] assms(3)
  have i: "server_inv J L h'" "srv_tab L h \<subseteq>\<^sub>m srv_tab L h'" "unique_strings (srv_tab L h')"
    by auto
  obtain s where s: "srv_tab L h i = Some s" "cstr s = t"
    using coherentD(1) [OF server_inv_coherent [OF assms(2,4)] assms(5)] by blast
  then have "srv_tab L h' i = Some s" using i(2) by (auto simp: map_le_def dom_def)
  from coherent_unique_index [OF server_inv_coherent [OF i(1) assms(7)] i(3) this] s(2)
  show ?thesis by simp
qed

text \<open>
  C3. Ids are stable: on a good server whose table has every string once, two answered
  string-to-id queries give the same id to the same string, whatever requests (other queries,
  switching the string-to-id queries off and on again) are served between them.
\<close>

theorem ids_stable:
  assumes "libs_ok J L" and "server_inv J L h" and "unique_strings (srv_tab L h)"
    and "q_op q1 = STR2ID" and "NumeratorHandler_query J L Query_new q1 h = (Returned r1, h1)"
    and "run J L h1 tr h2"
    and "q_op q2 = STR2ID" and "NumeratorHandler_query J L Query_new q2 h2 = (Returned r2, h3)"
    and "j < length (q_strings q1)" and "k < length (q_strings q2)"
    and "q_strings q1 ! j = q_strings q2 ! k"
  shows "q_ids r1 ! j = q_ids r2 ! k"
proof -
  note v1 = s2i_returned_view [OF assms(1,2,4,5,9)]
  have inv2: "server_inv J L h2" using run_inv [OF assms(1,6) v1(3)] by blast
  note v2 = s2i_returned_view [OF assms(1) inv2 assms(7,8,10)]
  have "srv_view J h2 (cstr (q_strings q1 ! j)) = Some (q_ids r1 ! j)"
    using index_survives [OF assms(1) v1(3) v1(6) [OF assms(3)] v1(2,1) assms(6)]
      s2i_returned_enabled [OF assms(8,7)] by blast
  then have "srv_view J h3 (cstr (q_strings q1 ! j)) = Some (q_ids r1 ! j)"
    using v2(5) by (auto simp: map_le_def dom_def)
  with v2(1) assms(11) show ?thesis by simp
qed

definition demo_server2 :: "((string \<times> num_id) list, (string \<times> string) list) server" where
  "demo_server2 = demo_server\<lparr>memory_storage :=
     \<lparr>data = [(''B'', 2), (''B'', 0), (''A'', 1), (''A'', 0)], value = Some ''B''\<rparr>\<rparr>"

lemma demo_disable:
  "serve alist_judy alist_db ReqDisable demo_server =
     (RepUnit (Returned ()), demo_server
        \<lparr>memory_storage := \<lparr>data = [], value = Some ''B''\<rparr>, disable_s2i_queries := True\<rparr>)"
  by (simp add: NumeratorHandler_disable_s2i_def disable_s2i_def demo_server_def ms_unload_def
      alist_judy_def)

lemma demo_enable:
  "serve alist_judy alist_db (ReqEnable 77) (demo_server
        \<lparr>memory_storage := \<lparr>data = [], value = Some ''B''\<rparr>, disable_s2i_queries := True\<rparr>) =
     (RepUnit (Returned ()), demo_server2)"
  by (simp add: NumeratorHandler_enable_s2i_def enable_s2i_def demo_server_def demo_server2_def
      ds_load_in_memory_def alist_db_def ds_new_def memcpy_id_def Let_def ms_insert_def
      alist_judy_def cstr_def)

lemma demo_run:
  "run alist_judy alist_db demo_server
     [(ReqDisable, RepUnit (Returned ())), (ReqEnable 77, RepUnit (Returned ()))] demo_server2"
  by (rule run_Cons [OF demo_disable _ run_Cons [OF demo_enable _ run_Nil]]) simp_all

definition demo_query2 :: query where
  "demo_query2 = Query_new\<lparr>q_op := STR2ID, q_strings := [''C'', ''B'']\<rparr>"

lemma demo_query2_reply:
  "\<exists>h3. NumeratorHandler_query alist_judy alist_db Query_new demo_query2 demo_server2 =
     (Returned (Query_new\<lparr>q_op := STR2ID, q_ids := [3, 2]\<rparr>), h3)"
  by (simp add: NumeratorHandler_query_def query_catch_def query_impl_def demo_query2_def Query_new_def
      demo_server2_def demo_server_def ms_find_def ms_new_def alist_judy_def cstr_def max_num_id_def
      ds_write_def alist_db_def ds_new_def kv_batch_def alist_put_def)

theorem ids_stable_witness:
  "q_ids (Query_new\<lparr>q_op := STR2ID, q_ids := [1, 2]\<rparr>) ! 1 =
   q_ids (Query_new\<lparr>q_op := STR2ID, q_ids := [3, 2]\<rparr>) ! 1"
proof -
  obtain h3 where h3: "NumeratorHandler_query alist_judy alist_db Query_new demo_query2 demo_server2 =
     (Returned (Query_new\<lparr>q_op := STR2ID, q_ids := [3, 2]\<rparr>), h3)"
    using demo_query2_reply by blast
  have q: "q_op demo_query = STR2ID" "q_op demo_query2 = STR2ID" "1 < length (q_strings demo_query)"
    "1 < length (q_strings demo_query2)" "q_strings demo_query ! 1 = q_strings demo_query2 ! 1"
    by (simp_all add: demo_query_def demo_query2_def)
  have "unique_strings (srv_tab alist_db empty_server)" by (simp add: unique_strings_def)
  from ids_stable [OF libs_ok_alist(1) empty_server_inv this q(1) demo_query_reply demo_run q(2) h3
      q(3,4,5)]
  show ?thesis .
qed


definition disabled_server :: "((string \<times> num_id) list, (string \<times> string) list) server" where
  "disabled_server = demo_server
     \<lparr>memory_storage := \<lparr>data = [], value = Some ''B''\<rparr>, disable_s2i_queries := True\<rparr>"

lemma demo_server_inv: "server_inv alist_judy alist_db demo_server"
  using serve_inv [OF libs_ok_alist(1) empty_server_inv, of "ReqQuery demo_query"]
  by (simp add: demo_query_reply)

lemma disabled_server_inv: "server_inv alist_judy alist_db disabled_server"
  using serve_inv [OF libs_ok_alist(1) demo_server_inv demo_disable]
  by (simp add: disabled_server_def)


lemma load_loop_returns:
  assumes "judy_no_error J" and "\<forall>e \<in> set es. fst e = StOk \<and> length (fst (snd e)) \<le> 8"
  shows "\<exists>mx' m'. load_loop (ms_insert J) es c mx m = (Inr mx', m')"
  using assms(2)
proof (induction es arbitrary: c mx m)
  case Nil
  then show ?case by simp
next
  case (Cons e es)
  obtain st k v where e: "e = (st, k, v)" by (cases e)
  obtain m1 where "ms_insert J v (memcpy_id c k) m = (Inr (), m1)"
    using ms_insert_returns [OF assms(1)] by blast
  with Cons e show ?case by (simp add: Let_def)
qed

lemma load_returns:
  assumes "libs_ok J L" and "libs_no_error J L" and "ds_wf L ds"
  shows "\<exists>mx m'. ds_load_in_memory L (ms_insert J) junk ds m = (Inr mx, m')"
proof -
  obtain d where d: "db ds = Some d" "\<forall>k \<in> dom (ldb_view L d). length k = 8"
    using assms(3) by (auto simp: ds_wf_def)
  have "fst e = StOk \<and> length (fst (snd e)) \<le> 8" if e: "e \<in> set (fst (ldb_Iterate L False d))" for e
  proof -
    have "(fst (snd e), snd (snd e)) \<in> set (iter_entries L False d)"
      using e by (force simp: iter_entries_def)
    from iter_keys8 [OF libs_okD(2) [OF assms(1)] d(2) this]
    have "length (fst (snd e)) \<le> 8" by simp
    moreover have "fst e = StOk"
      using assms(2) e unfolding libs_no_error_def leveldb_no_error_def by blast
    ultimately show ?thesis by simp
  qed
  then have "\<forall>e \<in> set (fst (ldb_Iterate L False d)). fst e = StOk \<and> length (fst (snd e)) \<le> 8"
    by blast
  from load_loop_returns [OF _ this, of J junk 0 m] assms(2) d(1) show ?thesis
    by (simp add: ds_load_in_memory_def libs_no_error_def)
qed

text \<open>
  C22. Switching the string-to-id queries off and on again, on a good server with healthy
  libraries whose table has every string once, always succeeds and gives back exactly the
  index that was there, with the same counter and the same table: the scenario of
  tests/disable-s2i-test.py.  In between the index is empty.
\<close>

theorem disable_enable_restores:
  assumes "libs_ok J L" and "libs_no_error J L" and "server_inv J L h"
    and "unique_strings (srv_tab L h)" and "\<not> disable_s2i_queries h"
  shows "\<exists>h1 h2. NumeratorHandler_disable_s2i J h = (Returned (), h1) \<and>
           disable_s2i_queries h1 \<and> srv_view J h1 = Map.empty \<and>
           NumeratorHandler_enable_s2i J L junk h1 = (Returned (), h2) \<and>
           \<not> disable_s2i_queries h2 \<and> srv_view J h2 = srv_view J h \<and>
           disk_storage h2 = disk_storage h \<and> cnt h2 = cnt h \<and> server_inv J L h2"
proof -
  let ?h1 = "h\<lparr>memory_storage := ms_unload J (memory_storage h), disable_s2i_queries := True\<rparr>"
  have d: "NumeratorHandler_disable_s2i J h = (Returned (), ?h1)"
    using assms(5) by (simp add: NumeratorHandler_disable_s2i_def disable_s2i_def)
  have inv1: "server_inv J L ?h1"
    using serve_inv [OF assms(1,3), of ReqDisable] d by simp
  then obtain mx m where "ds_load_in_memory L (ms_insert J) junk (disk_storage ?h1)
      (memory_storage ?h1) = (Inr mx, m)"
    using load_returns [OF assms(1,2)] unfolding server_inv_def by blast
  then have e: "NumeratorHandler_enable_s2i J L junk ?h1 =
      (Returned (), ?h1\<lparr>memory_storage := m, disable_s2i_queries := False\<rparr>)" (is "_ = (_, ?h2)")
    by (simp add: NumeratorHandler_enable_s2i_def enable_s2i_def)
  have inv2: "server_inv J L ?h2"
    using serve_inv [OF assms(1) inv1, of "ReqEnable junk"] e by simp
  have "srv_view J ?h2 = srv_view J h"
    using coherent_unique_determined [OF server_inv_coherent [OF inv2], of "srv_view J h" "cnt h"]
      server_inv_coherent [OF assms(3,5)] assms(4) by simp
  then show ?thesis
    using d e inv2 mem.unload_view [OF libs_okD(1) [OF assms(1)]]
    by (intro exI [of _ ?h1] exI [of _ ?h2]) simp
qed

theorem disable_enable_restores_witness:
  "\<exists>h2. NumeratorHandler_enable_s2i alist_judy alist_db 77 disabled_server = (Returned (), h2) \<and>
        srv_view alist_judy h2 = srv_view alist_judy demo_server \<and> cnt h2 = 3"
proof -
  have u: "unique_strings (srv_tab alist_db demo_server)"
    using serve_inv [OF libs_ok_alist(1) empty_server_inv, of "ReqQuery demo_query"]
    by (simp add: demo_query_reply unique_strings_def)
  have en: "\<not> disable_s2i_queries demo_server" by (simp add: demo_server_def)
  have d: "NumeratorHandler_disable_s2i alist_judy demo_server = (Returned (), disabled_server)"
    using demo_disable by (simp add: map_prod_def disabled_server_def split: prod.splits)
  have "cnt demo_server = 3" by (simp add: demo_server_def)
  with disable_enable_restores [OF libs_ok_alist demo_server_inv u en, of 77] d
  show ?thesis by auto
qed

text \<open>
  C25. A storage failure never reaches the client as an answer: when the write of a
  string-to-id query's new pairs does not succeed, or an id cannot be read, the process exits;
  no reply with ids that are not in the table is ever sent.
\<close>

theorem storage_failure_exits:
  assumes "s2i_loop (ms_find J) (q_strings q) [] [] (cnt h) (memory_storage h) = (Inr (kvs, ids), c, m)"
    and "q_op q = STR2ID" and "\<not> disable_s2i_queries h" and "db (disk_storage h) = Some d"
    and "fst (ldb_Write L d (kv_batch kvs)) \<noteq> StOk"
  shows "fst (NumeratorHandler_query J L Query_new q h) = ProcessExit"
  using assms
  by (auto simp: NumeratorHandler_query_def query_catch_def query_impl_def ds_write_def Query_new_def
      Let_def split: prod.splits)

theorem storage_failure_exits_witness:
  "fst (NumeratorHandler_query alist_judy
      (alist_db\<lparr>ldb_Write := (\<lambda>d b. (StOther ''No space left on device'', d))\<rparr>)
      Query_new demo_query empty_server) = ProcessExit"
proof -
  have l: "s2i_loop (ms_find alist_judy) (q_strings demo_query) [] [] (cnt empty_server)
      (memory_storage empty_server) =
      (Inr ([(1, ''A''), (2, ''B'')], [1, 2]), 3, memory_storage demo_server)"
    by (simp add: demo_query_def empty_server_def ms_find_def ms_new_def alist_judy_def cstr_def
        max_num_id_def demo_server_def)
  show ?thesis
    by (rule storage_failure_exits [OF l]) (simp_all add: demo_query_def empty_server_def)
qed

section \<open>Start-up and restart\<close>

lemma ds_init_opened:
  assumes "sint cache < 2048" and "\<And>opts. ldb_Open L opts path = (StOk, Some d)"
  shows "\<exists>ds. ds_init L path cache ds_new = (Inr (), ds) \<and> db ds = Some d"
  using assms by (simp add: ds_init_def Let_def)

lemma server_starts:
  assumes "libs_ok J L" and "libs_no_error J L"
    and "\<And>opts. ldb_Open L opts path = (StOk, Some d)"
    and "\<forall>k \<in> dom (ldb_view L d). length k = 8"
    and "\<forall>i. id_bytes i \<in> dom (ldb_view L d) \<longrightarrow> i \<noteq> max_num_id"
    and "sint cache < 2048"
  shows "\<exists>h. server_start J L path cache False junk = Returned h \<and> server_inv J L h \<and>
           \<not> disable_s2i_queries h \<and> srv_tab L h = (\<lambda>i. ldb_view L d (id_bytes i)) \<and>
           (cnt h = 1 \<or> cnt h - 1 \<in> dom (srv_tab L h))"
proof -
  obtain ds where ds: "ds_init L path cache ds_new = (Inr (), ds)" "db ds = Some d"
    using ds_init_opened [OF assms(6,3)] by blast
  have wf: "ds_wf L ds" using ds(2) assms(4) by (simp add: ds_wf_def)
  note ok = libs_okD(1,2) [OF assms(1)]
  obtain mx m where l: "ds_load_in_memory L (ms_insert J) junk ds (ms_new J) = (Inr mx, m)"
    using load_returns [OF assms(1,2) wf] by blast
  have "index_sound (ms_view J (ms_new J)) (ds_view L ds)"
    by (simp add: ms_new_view [OF ok(1)] index_sound_def)
  note lc = svc.load_coherent [OF ok wf libs_okD(3) [OF assms(1) wf] this l]
  obtain kvs where "map_of kvs = ds_view L ds" "insert_all (ms_insert J) kvs 0 (ms_new J) = (Inr mx, m)"
    using disk.load_tab [OF ok(2) wf libs_okD(3) [OF assms(1) wf] l] by blast
  then have mx: "mx = 0 \<or> mx \<in> dom (ds_view L ds)"
    using insert_all_max [of "ms_insert J" kvs 0 "ms_new J" mx m]
    by (metis dom_map_of_conv_image_fst)
  then have "mx \<noteq> max_num_id"
    using assms(5) ds(2) by (auto simp: max_num_id_def)
  then have c: "sint (mx + 1) = sint mx + 1" "mx \<noteq> max_num_id"
    using sint_num_id_plus_1 by auto
  then have "counter_fresh (ds_view L ds) (mx + 1)"
    using lc(3,4) by (fastforce simp: counter_fresh_def)
  with lc(1,2) have "coherent (ms_view J m) (ds_view L ds) (mx + 1)"
    by (simp add: coherent_def)
  with ds l c mx wf show ?thesis
    by (auto simp: server_start_def server_inv_def service_inv_def)
qed

text \<open>A new process on the database that another one left.\<close>

lemma server_reopens:
  assumes "libs_ok J L" and "libs_no_error J L" and "ds_wf L ds" and "counter_fresh (ds_view L ds) c"
    and "\<And>opts. ldb_Open L opts path = (StOk, db ds)" and "sint cache < 2048"
  shows "\<exists>h. server_start J L path cache False junk = Returned h \<and> server_inv J L h \<and>
           \<not> disable_s2i_queries h \<and> srv_tab L h = ds_view L ds"
proof -
  obtain d where d: "db ds = Some d" "\<forall>k \<in> dom (ldb_view L d). length k = 8"
    using assms(3) by (auto simp: ds_wf_def)
  have "i \<noteq> max_num_id" if "id_bytes i \<in> dom (ldb_view L d)" for i
  proof -
    have "i \<in> dom (ds_view L ds)" using that d(1) by auto
    then have "sint i < sint c" using assms(4) by (simp add: counter_fresh_def)
    then show ?thesis using sint_num_id_range(2) [of c] by auto
  qed
  then have max: "\<forall>i. id_bytes i \<in> dom (ldb_view L d) \<longrightarrow> i \<noteq> max_num_id" by blast
  have opn: "ldb_Open L opts path = (StOk, Some d)" for opts using assms(5) d(1) by simp
  show ?thesis
    using server_starts [OF assms(1,2) opn d(2) max assms(6), of junk] d(1) by auto
qed

text \<open>
  C5. Start-up: on a database that opens, whose keys are ids and whose greatest id is below
  the greatest number, with healthy libraries and a cache below 2048 megabytes, \<open>main\<close> reaches
  the server with the string-to-id queries enabled.  The server is good: index and table are
  coherent, the table is the database's, and the counter is one above the greatest id (1 for
  a table without positive ids).
\<close>

theorem server_start_correct:
  assumes "libs_ok J L" and "libs_no_error J L"
    and "\<And>opts. ldb_Open L opts path = (StOk, Some d)"
    and "\<forall>k \<in> dom (ldb_view L d). length k = 8"
    and "\<forall>i. id_bytes i \<in> dom (ldb_view L d) \<longrightarrow> i \<noteq> max_num_id"
    and "sint cache < 2048"
  shows "\<exists>h. server_start J L path cache False junk = Returned h \<and> server_inv J L h \<and>
           \<not> disable_s2i_queries h \<and> srv_tab L h = (\<lambda>i. ldb_view L d (id_bytes i)) \<and>
           (cnt h = 1 \<or> cnt h - 1 \<in> dom (srv_tab L h))"
  by (rule server_starts [OF assms])

definition open_db :: "(string \<times> string) list \<Rightarrow> (string \<times> string) list leveldb" where
  "open_db d = alist_db\<lparr>ldb_Open := (\<lambda>opts path. (StOk, Some d))\<rparr>"

lemma open_db_simps [simp]:
  "ldb_Open (open_db d) = (\<lambda>opts path. (StOk, Some d))" "ldb_Write (open_db d) = ldb_Write alist_db"
  "ldb_Get (open_db d) = ldb_Get alist_db" "ldb_Iterate (open_db d) = ldb_Iterate alist_db"
  "ldb_view (open_db d) = ldb_view alist_db"
  by (simp_all add: open_db_def)

lemma open_db_ok [simp]: "libs_ok alist_judy (open_db d)" "libs_no_error alist_judy (open_db d)"
  using alist_db_ok alist_db_no_error
  by (simp_all add: libs_ok_def libs_no_error_def leveldb_ok_def leveldb_no_error_def
      alist_db_def)

theorem server_start_correct_witness:
  "\<exists>h. server_start alist_judy (open_db [(id_bytes 5, ''x''), (id_bytes 3, ''y'')]) ''/data'' 64 False 0
        = Returned h \<and> srv_tab (open_db [(id_bytes 5, ''x''), (id_bytes 3, ''y'')]) h 3 = Some ''y''"
proof -
  let ?d = "[(id_bytes 5, ''x''), (id_bytes 3, ''y'')]"
  have keys: "\<forall>k \<in> dom (ldb_view (open_db ?d) ?d). length k = 8"
    by (auto simp: alist_db_def split: if_splits)
  have max: "\<forall>i. id_bytes i \<in> dom (ldb_view (open_db ?d) ?d) \<longrightarrow> i \<noteq> max_num_id"
    by (auto simp: alist_db_def max_num_id_def split: if_splits)
  have "sint (64 :: 32 word) < 2048" by simp
  from server_start_correct [OF open_db_ok _ keys max this, of "''/data''" 0]
  obtain h where "server_start alist_judy (open_db ?d) ''/data'' 64 False 0 = Returned h"
    "srv_tab (open_db ?d) h = (\<lambda>i. ldb_view (open_db ?d) ?d (id_bytes i))"
    by auto
  then show ?thesis by (intro exI [of _ h]) (simp add: alist_db_def)
qed

text \<open>
  C8. Nothing is forgotten at a restart: when a good server (queries enabled, every string
  once in its table, no id at its maximum) ends after any run of requests and a new process
  opens the database it left, the new server has exactly the same index and the same table,
  so every string keeps its id across restarts.
\<close>

theorem restart_keeps_ids:
  assumes "libs_ok J L" and "libs_no_error J L" and "server_inv J L h"
    and "unique_strings (srv_tab L h)" and "run J L h tr h1" and "\<not> disable_s2i_queries h1"
    and "\<And>opts. ldb_Open L opts path = (StOk, db (disk_storage h1))"
    and "sint cache < 2048"
  shows "\<exists>h2. server_start J L path cache False junk = Returned h2 \<and>
           srv_view J h2 = srv_view J h1 \<and> srv_tab L h2 = srv_tab L h1 \<and> server_inv J L h2"
proof -
  from run_inv [OF assms(1,5,3)] assms(4)
  have i: "server_inv J L h1" "unique_strings (srv_tab L h1)" by auto
  note co = server_inv_coherent [OF i(1) assms(6)]
  then have "counter_fresh (srv_tab L h1) (cnt h1)" by (simp add: coherent_def)
  moreover have "ds_wf L (disk_storage h1)" using i(1) by (simp add: server_inv_def)
  ultimately obtain h2 where h2: "server_start J L path cache False junk = Returned h2"
    "server_inv J L h2" "\<not> disable_s2i_queries h2" "srv_tab L h2 = srv_tab L h1"
    using server_reopens [OF assms(1,2) _ _ assms(7,8), of "cnt h1" junk] by blast
  have "srv_view J h2 = srv_view J h1"
    using coherent_unique_determined [OF server_inv_coherent [OF h2(2,3)], of "srv_view J h1" "cnt h1"]
      co i(2) h2(4) by simp
  with h2 show ?thesis by blast
qed


theorem restart_keeps_ids_witness:
  "\<exists>h2. server_start alist_judy (open_db [(id_bytes 1, ''A''), (id_bytes 2, ''B'')]) ''/data'' 0 False 9
          = Returned h2 \<and>
        srv_view alist_judy h2 ''B'' = Some 2"
proof -
  let ?L = "open_db [(id_bytes 1, ''A''), (id_bytes 2, ''B'')]"
  have tab: "ds_view ?L ds = ds_view alist_db ds" for ds
    by (simp add: fun_eq_iff ds_view_def split: option.splits)
  have inv: "server_inv alist_judy ?L demo_server"
    using demo_server_inv by (simp add: server_inv_def ds_wf_def tab)
  have u: "unique_strings (srv_tab ?L demo_server)"
    using serve_inv [OF libs_ok_alist(1) empty_server_inv, of "ReqQuery demo_query"]
    by (simp add: demo_query_reply unique_strings_def tab)
  have o: "ldb_Open ?L opts ''/data'' = (StOk, db (disk_storage demo_server))" for opts
    by (simp add: demo_server_def)
  have "srv_view alist_judy demo_server ''B'' = Some 2"
    by (simp add: demo_server_def ms_view_def alist_judy_def)
  with restart_keeps_ids [OF open_db_ok inv u run_Nil _ o, of 0 9] show ?thesis
    by (auto simp: demo_server_def)
qed

text \<open>
  C6. Starting with the string-to-id queries disabled and enabling them later reuses ids: the
  counter stays at 0, because \<open>enable_s2i\<close> drops the greatest id that \<open>load_in_memory\<close>
  returns.  Two new strings then get the ids 0 and 1, and the table's entry of id 1 (the
  first id this program ever assigns) is overwritten: its string is lost.
\<close>

theorem enable_after_disabled_start_reuses_ids:
  assumes "libs_ok J L" and "libs_no_error J L"
    and "\<And>opts. ldb_Open L opts path = (StOk, Some d)"
    and "\<forall>k \<in> dom (ldb_view L d). length k = 8" and "sint cache < 2048"
    and old: "ldb_view L d (id_bytes 1) = Some old"
    and new: "\<forall>t \<in> ran (ldb_view L d). cstr t \<noteq> cstr s1 \<and> cstr t \<noteq> cstr s2" "cstr s1 \<noteq> cstr s2"
  shows "\<exists>h1 h2 h3. server_start J L path cache True junk = Returned h1 \<and>
           srv_tab L h1 1 = Some old \<and>
           NumeratorHandler_enable_s2i J L junk h1 = (Returned (), h2) \<and>
           NumeratorHandler_query J L Query_new (Query_new\<lparr>q_op := STR2ID, q_strings := [s1, s2]\<rparr>) h2 =
             (Returned (Query_new\<lparr>q_op := STR2ID, q_ids := [0, 1]\<rparr>), h3) \<and>
           srv_tab L h3 1 = Some s2 \<and> s2 \<noteq> old"
proof -
  note ok = libs_okD(1,2) [OF assms(1)]
  obtain ds where ds: "ds_init L path cache ds_new = (Inr (), ds)" "db ds = Some d"
    using ds_init_opened [OF assms(5,3)] by blast
  have wf: "ds_wf L ds" using ds(2) assms(4) by (simp add: ds_wf_def)
  obtain mx m where l: "ds_load_in_memory L (ms_insert J) junk ds (ms_new J) = (Inr mx, m)"
    using load_returns [OF assms(1,2) wf] by blast
  have "index_sound (ms_view J (ms_new J)) (ds_view L ds)"
    by (simp add: ms_new_view [OF ok(1)] index_sound_def)
  from svc.load_coherent(1) [OF ok wf libs_okD(3) [OF assms(1) wf] this l]
  have absent: "ms_view J m (cstr s1) = None" "ms_view J m (cstr s2) = None"
    using new(1) ds(2) unfolding index_sound_def by (metis ds_view_Some not_None_eq ranI)+
  let ?h1 = "\<lparr>memory_storage = ms_new J, disk_storage = ds, disable_s2i_queries = True, cnt = 0\<rparr>"
  let ?h2 = "\<lparr>memory_storage = m, disk_storage = ds, disable_s2i_queries = False, cnt = 0\<rparr>"
  let ?q = "Query_new\<lparr>q_op := STR2ID, q_strings := [s1, s2]\<rparr>"
  have start: "server_start J L path cache True junk = Returned ?h1" "srv_tab L ?h1 1 = Some old"
    "NumeratorHandler_enable_s2i J L junk ?h1 = (Returned (), ?h2)"
    using ds l old
    by (simp_all add: server_start_def NumeratorHandler_enable_s2i_def enable_s2i_def)
  obtain kvs ids c m' where loop: "s2i_loop (ms_find J) [s1, s2] [] [] 0 m = (Inr (kvs, ids), c, m')"
    using s2i_loop_returns [of J 0 "[s1, s2]"] assms(2) unfolding libs_no_error_def by fastforce
  have res: "kvs = [(0, s1), (1, s2)]" "ids = [0, 1]"
    using mem.s2i_loop_intern [OF ok(1) loop] absent new(2) by auto
  obtain d' where w: "ldb_Write L d (kv_batch kvs) = (StOk, d')"
    using assms(2) unfolding libs_no_error_def leveldb_no_error_def by (metis prod.collapse)
  then have wr: "ds_write L ds kvs = (Inr (), ds\<lparr>db := Some d'\<rparr>)" using ds(2) by (simp add: ds_write_def)
  have "NumeratorHandler_query J L Query_new ?q ?h2 =
      (Returned (Query_new\<lparr>q_op := STR2ID, q_ids := [0, 1]\<rparr>),
       ?h2\<lparr>memory_storage := m', cnt := c, disk_storage := ds\<lparr>db := Some d'\<rparr>\<rparr>)" (is "_ = (_, ?h3)")
    using loop wr res
    by (simp add: NumeratorHandler_query_def query_catch_def query_impl_def Query_new_def Let_def
        del: s2i_loop.simps)
  moreover have "srv_tab L ?h3 1 = Some s2" using disk.write_tab [OF ok(2) wr] res by simp
  moreover have "s2 \<noteq> old" using new(1) old by (auto simp: ran_def)
  ultimately show ?thesis using start by blast
qed

theorem enable_after_disabled_start_reuses_ids_witness:
  "\<exists>h1 h2 h3. server_start alist_judy (open_db [(id_bytes 1, ''A'')]) ''/data'' 0 True 0 = Returned h1 \<and>
     srv_tab (open_db [(id_bytes 1, ''A'')]) h1 1 = Some ''A'' \<and>
     NumeratorHandler_enable_s2i alist_judy (open_db [(id_bytes 1, ''A'')]) 0 h1 = (Returned (), h2) \<and>
     NumeratorHandler_query alist_judy (open_db [(id_bytes 1, ''A'')]) Query_new
        (Query_new\<lparr>q_op := STR2ID, q_strings := [''X'', ''Y'']\<rparr>) h2 =
        (Returned (Query_new\<lparr>q_op := STR2ID, q_ids := [0, 1]\<rparr>), h3) \<and>
     srv_tab (open_db [(id_bytes 1, ''A'')]) h3 1 = Some ''Y'' \<and> ''Y'' \<noteq> ''A''"
proof (rule enable_after_disabled_start_reuses_ids [OF open_db_ok, where d = "[(id_bytes 1, ''A'')]"])
  show "\<forall>k \<in> dom (ldb_view (open_db [(id_bytes 1, ''A'')]) [(id_bytes 1, ''A'')]). length k = 8"
    by (auto simp: alist_db_def split: if_splits)
qed (auto simp: alist_db_def ran_def cstr_def split: if_splits)

end
