(* ===== verification/Interleaving.thy ===== *)
theory Interleaving
  imports Server
begin

text \<open>
  The handler under the worker threads of the Thrift server: numerator.cpp with its mutex.
  \<open>query_impl\<close> holds the mutex from its first to its last statement; \<open>disable_s2i\<close> and
  \<open>enable_s2i\<close> never take it.  A step is one access of a thread to the shared state: a check
  of the flag, one \<open>find\<close>, one write to the database, one unload, one load, one assignment
  of the flag.  (The C++ program also has data races here, since the flag is a plain bool; the
  model is what remains if every access is atomic and in order.)

  \<open>trace\<close> and \<open>at_lock\<close> are no state of the program: the answered queries in the order of
  their answers, and the handler as the present owner of the mutex found it.
\<close>

datatype thread =
    QStart query
  | QLocked query
  | QLoop query "string list" "kv_pair list" "num_id list"
  | QDone query "query call"
  | DStart | DUnload | DFlag | DDone
  | EStart num_id | ELoad num_id | EFlag | EDone "unit call"

record ('j, 'db) system =
  shared :: "('j, 'db) server"
  owner :: "nat option"
  thread :: "nat \<Rightarrow> thread"
  running :: bool
  trace :: "(request \<times> reply) list"
  at_lock :: "('j, 'db) server"

definition goto :: "nat \<Rightarrow> thread \<Rightarrow> ('j, 'db) system \<Rightarrow> ('j, 'db) system" where
  "goto t pc s = s\<lparr>thread := (thread s)(t := pc)\<rparr>"

text \<open>
  A query ends: the lock guard is destroyed, and what the handler's \<open>catch\<close> makes of the
  outcome is the reply, or the end of the process.
\<close>

definition leave :: "nat \<Rightarrow> query \<Rightarrow> query call \<times> ('j, 'db) server \<Rightarrow> ('j, 'db) system \<Rightarrow> ('j, 'db) system" where
  "leave t q r s =
     (case query_catch r of (c, h) \<Rightarrow>
        (goto t (QDone q c) s)
          \<lparr>shared := h, owner := None, running := answered (RepQuery c),
           trace := trace s @ [(ReqQuery q, RepQuery c)]\<rparr>)"

inductive step :: "'j judy \<Rightarrow> 'db leveldb \<Rightarrow> ('j, 'db) system \<Rightarrow> ('j, 'db) system \<Rightarrow> bool"
  for J L where
  lock:
    "running s \<Longrightarrow> thread s t = QStart q \<Longrightarrow> owner s = None \<Longrightarrow>
     step J L s ((goto t (QLocked q) s)\<lparr>owner := Some t, at_lock := shared s\<rparr>)"
| enter:
    "running s \<Longrightarrow> thread s t = QLocked q \<Longrightarrow> q_op q = STR2ID \<Longrightarrow>
     \<not> disable_s2i_queries (shared s) \<Longrightarrow>
     step J L s (goto t (QLoop q (q_strings q) [] (q_ids Query_new)) s)"
| short:
    "running s \<Longrightarrow> thread s t = QLocked q \<Longrightarrow>
     \<not> (q_op q = STR2ID \<and> \<not> disable_s2i_queries (shared s)) \<Longrightarrow>
     step J L s (leave t q (query_impl (ms_find J) (ds_write L) (ds_lookup L) Query_new q (shared s)) s)"
| find:
    "running s \<Longrightarrow> thread s t = QLoop q (str # rest) kvs ids \<Longrightarrow>
     ms_find J str (cnt (shared s)) (memory_storage (shared s)) = (Inr (inserted, i), c, m) \<Longrightarrow>
     step J L s
       ((goto t (QLoop q rest (if inserted then kvs @ [(i, str)] else kvs) (ids @ [i])) s)
          \<lparr>shared := (shared s)\<lparr>memory_storage := m, cnt := c\<rparr>\<rparr>)"
| find_fails:
    "running s \<Longrightarrow> thread s t = QLoop q (str # rest) kvs ids \<Longrightarrow>
     ms_find J str (cnt (shared s)) (memory_storage (shared s)) = (Inl e, c, m) \<Longrightarrow>
     step J L s (leave t q (raise e, (shared s)\<lparr>memory_storage := m, cnt := c\<rparr>) s)"
| store:
    "running s \<Longrightarrow> thread s t = QLoop q [] kvs ids \<Longrightarrow>
     ds_write L (disk_storage (shared s)) kvs = (r, d) \<Longrightarrow>
     step J L s
       (leave t q
          ((case r of Inl e \<Rightarrow> raise e | Inr _ \<Rightarrow> Returned (Query_new\<lparr>q_ids := ids, q_op := q_op q\<rparr>)),
           (shared s)\<lparr>disk_storage := d\<rparr>) s)"
| disable_check:
    "running s \<Longrightarrow> thread s t = DStart \<Longrightarrow>
     step J L s (goto t (if disable_s2i_queries (shared s) then DDone else DUnload) s)"
| unload:
    "running s \<Longrightarrow> thread s t = DUnload \<Longrightarrow>
     step J L s
       ((goto t DFlag s)\<lparr>shared := (shared s)\<lparr>memory_storage := ms_unload J (memory_storage (shared s))\<rparr>\<rparr>)"
| disable_flag:
    "running s \<Longrightarrow> thread s t = DFlag \<Longrightarrow>
     step J L s ((goto t DDone s)\<lparr>shared := (shared s)\<lparr>disable_s2i_queries := True\<rparr>\<rparr>)"
| enable_check:
    "running s \<Longrightarrow> thread s t = EStart junk \<Longrightarrow>
     step J L s (goto t (if disable_s2i_queries (shared s) then ELoad junk else EDone (Returned ())) s)"
| load:
    "running s \<Longrightarrow> thread s t = ELoad junk \<Longrightarrow>
     ds_load_in_memory L (ms_insert J) junk (disk_storage (shared s)) (memory_storage (shared s)) = (r, m) \<Longrightarrow>
     step J L s
       ((goto t (case r of Inl e \<Rightarrow> EDone (raise e) | Inr _ \<Rightarrow> EFlag) s)
          \<lparr>shared := (shared s)\<lparr>memory_storage := m\<rparr>\<rparr>)"
| enable_flag:
    "running s \<Longrightarrow> thread s t = EFlag \<Longrightarrow>
     step J L s
       ((goto t (EDone (Returned ())) s)\<lparr>shared := (shared s)\<lparr>disable_s2i_queries := False\<rparr>\<rparr>)"

inductive steps :: "'j judy \<Rightarrow> 'db leveldb \<Rightarrow> ('j, 'db) system \<Rightarrow> ('j, 'db) system \<Rightarrow> bool"
  for J L where
  steps_refl: "steps J L s s"
| steps_step: "steps J L s s1 \<Longrightarrow> step J L s1 s2 \<Longrightarrow> steps J L s s2"

text \<open>The server when it starts to serve: threads that have been given a request each.\<close>

definition not_started :: "thread \<Rightarrow> bool" where
  "not_started pc \<longleftrightarrow> (\<exists>q. pc = QStart q) \<or> pc = DStart \<or> (\<exists>junk. pc = EStart junk)"

definition serving :: "('j, 'db) server \<Rightarrow> (nat \<Rightarrow> thread) \<Rightarrow> ('j, 'db) system" where
  "serving h ths = \<lparr>shared = h, owner = None, thread = ths, running = True, trace = [], at_lock = h\<rparr>"

section \<open>Mutual exclusion of queries\<close>

fun in_query :: "thread \<Rightarrow> bool" where
  "in_query (QLocked _) = True"
| "in_query (QLoop _ _ _ _) = True"
| "in_query _ = False"

definition mutex_inv :: "('j, 'db) system \<Rightarrow> bool" where
  "mutex_inv s \<longleftrightarrow> (\<forall>t. in_query (thread s t) \<longleftrightarrow> owner s = Some t)"

lemma goto_simps [simp]:
  "shared (goto t pc s) = shared s" "owner (goto t pc s) = owner s"
  "running (goto t pc s) = running s" "trace (goto t pc s) = trace s" "at_lock (goto t pc s) = at_lock s"
  "thread (goto t pc s) = (thread s)(t := pc)"
  by (simp_all add: goto_def)

lemma leave_simps [simp]:
  "shared (leave t q r s) = snd (query_catch r)" "owner (leave t q r s) = None"
  "running (leave t q r s) = answered (RepQuery (fst (query_catch r)))"
  "trace (leave t q r s) = trace s @ [(ReqQuery q, RepQuery (fst (query_catch r)))]"
  "thread (leave t q r s) = (thread s)(t := QDone q (fst (query_catch r)))"
  by (simp_all add: leave_def split_def)

lemma step_mutex: "step J L s s' \<Longrightarrow> mutex_inv s \<Longrightarrow> mutex_inv s'"
proof (induction rule: step.induct)
  case (load s t junk r m)
  then show ?case by (cases r) (force simp: mutex_inv_def)+
qed (force simp: mutex_inv_def)+

lemma steps_mutex: "steps J L s s' \<Longrightarrow> mutex_inv s \<Longrightarrow> mutex_inv s'"
  by (induction rule: steps.induct) (auto dest: step_mutex)

lemma serving_mutex: "\<forall>t. not_started (ths t) \<Longrightarrow> mutex_inv (serving h ths)"
proof -
  have "not_started pc \<Longrightarrow> \<not> in_query pc" for pc by (auto simp: not_started_def)
  then show "\<forall>t. not_started (ths t) \<Longrightarrow> mutex_inv (serving h ths)"
    by (simp add: mutex_inv_def serving_def)
qed

section \<open>Queries among themselves are atomic\<close>

fun is_query :: "thread \<Rightarrow> bool" where
  "is_query (QStart _) = True"
| "is_query (QLocked _) = True"
| "is_query (QLoop _ _ _ _) = True"
| "is_query (QDone _ _) = True"
| "is_query _ = False"

text \<open>Where the owner of the mutex stands, as seen from the handler that it found.\<close>

definition loop_from ::
  "'j judy \<Rightarrow> ('j, 'db) server \<Rightarrow> string list \<Rightarrow> kv_pair list \<Rightarrow> num_id list \<Rightarrow>
     (error + kv_pair list \<times> num_id list) \<times> num_id \<times> 'j memory_storage" where
  "loop_from J h rest kvs ids = s2i_loop (ms_find J) rest kvs ids (cnt h) (memory_storage h)"

definition progress :: "'j judy \<Rightarrow> thread \<Rightarrow> ('j, 'db) server \<Rightarrow> ('j, 'db) server \<Rightarrow> bool" where
  "progress J pc h0 h \<longleftrightarrow>
     (case pc of
        QLocked q \<Rightarrow> h = h0
      | QLoop q rest kvs ids \<Rightarrow>
          q_op q = STR2ID \<and> \<not> disable_s2i_queries h0 \<and>
          h = h0\<lparr>memory_storage := memory_storage h, cnt := cnt h\<rparr> \<and>
          loop_from J h rest kvs ids = loop_from J h0 (q_strings q) [] (q_ids Query_new)
      | _ \<Rightarrow> False)"

lemma progress_find:
  assumes "progress J (QLoop q (str # rest) kvs ids) h0 h"
    and "ms_find J str (cnt h) (memory_storage h) = (Inr (inserted, i), c, m)"
  shows "progress J (QLoop q rest (if inserted then kvs @ [(i, str)] else kvs) (ids @ [i])) h0
           (h\<lparr>memory_storage := m, cnt := c\<rparr>)"
proof -
  have h: "h = h0\<lparr>memory_storage := memory_storage h, cnt := cnt h\<rparr>"
    using assms(1) by (simp add: progress_def)
  have "h\<lparr>memory_storage := m, cnt := c\<rparr> = h0\<lparr>memory_storage := m, cnt := c\<rparr>" by (subst h) simp
  with assms show ?thesis by (simp add: progress_def loop_from_def)
qed

text \<open>The steps that end a query do what the whole \<open>query_impl\<close> does at once.\<close>

lemma progress_find_fails:
  assumes "progress J (QLoop q (str # rest) kvs ids) h0 h"
    and "ms_find J str (cnt h) (memory_storage h) = (Inl e, c, m)"
  shows "query_impl (ms_find J) (ds_write L) (ds_lookup L) Query_new q h0 =
           (raise e, h\<lparr>memory_storage := m, cnt := c\<rparr>)"
proof -
  have h: "h = h0\<lparr>memory_storage := memory_storage h, cnt := cnt h\<rparr>"
    and q: "q_op q = STR2ID" "\<not> disable_s2i_queries h0"
    and l: "loop_from J h0 (q_strings q) [] (q_ids Query_new) = (Inl e, c, m)"
    using assms by (simp_all add: progress_def loop_from_def)
  have "h\<lparr>memory_storage := m, cnt := c\<rparr> = h0\<lparr>memory_storage := m, cnt := c\<rparr>" by (subst h) simp
  with q l show ?thesis by (simp add: query_impl_def loop_from_def)
qed

lemma progress_write:
  assumes "progress J (QLoop q [] kvs ids) h0 h" and "ds_write L (disk_storage h) kvs = (r, d)"
  shows "query_impl (ms_find J) (ds_write L) (ds_lookup L) Query_new q h0 =
           ((case r of Inl e \<Rightarrow> raise e | Inr _ \<Rightarrow> Returned (Query_new\<lparr>q_ids := ids, q_op := q_op q\<rparr>)),
            h\<lparr>disk_storage := d\<rparr>)"
proof -
  have h: "h = h0\<lparr>memory_storage := memory_storage h, cnt := cnt h\<rparr>"
    and q: "q_op q = STR2ID" "\<not> disable_s2i_queries h0"
    and l: "loop_from J h0 (q_strings q) [] (q_ids Query_new) = (Inr (kvs, ids), cnt h, memory_storage h)"
    using assms(1) by (simp_all add: progress_def loop_from_def)
  have "disk_storage h = disk_storage h0" by (subst h) simp
  with assms(2) have "ds_write L (disk_storage h0) kvs = (r, d)" by simp
  with q l h show ?thesis by (simp add: query_impl_def loop_from_def Let_def split: sum.split)
qed

lemma run_snoc:
  "run J L h tr h1 \<Longrightarrow> serve J L req h1 = (rep, h2) \<Longrightarrow> answered rep \<Longrightarrow> run J L h (tr @ [(req, rep)]) h2"
  by (induction rule: run.induct) (auto intro: run.intros)

definition lin_inv :: "'j judy \<Rightarrow> 'db leveldb \<Rightarrow> ('j, 'db) server \<Rightarrow> ('j, 'db) system \<Rightarrow> bool" where
  "lin_inv J L h0 s \<longleftrightarrow>
     mutex_inv s \<and> (\<forall>t. is_query (thread s t)) \<and>
     (\<forall>t q c. thread s t = QDone q c \<longrightarrow> (ReqQuery q, RepQuery c) \<in> set (trace s)) \<and>
     (running s \<longrightarrow>
        (case owner s of
           None \<Rightarrow> run J L h0 (trace s) (shared s)
         | Some t \<Rightarrow> run J L h0 (trace s) (at_lock s) \<and> progress J (thread s t) (at_lock s) (shared s)))"

lemma lin_leave:
  assumes inv: "lin_inv J L h0 s" and "mutex_inv (leave t q r s)"
    and run: "run J L h0 (trace s) h1"
    and r: "r = query_impl (ms_find J) (ds_write L) (ds_lookup L) Query_new q h1"
  shows "lin_inv J L h0 (leave t q r s)"
proof -
  obtain c h' where c: "query_catch r = (c, h')" by fastforce
  then have "serve J L (ReqQuery q) h1 = (RepQuery c, h')"
    by (simp add: NumeratorHandler_query_def r)
  from run_snoc [OF run this] have "answered (RepQuery c) \<longrightarrow>
      run J L h0 (trace s @ [(ReqQuery q, RepQuery c)]) h'" by simp
  with c inv assms(2) show ?thesis by (auto simp: lin_inv_def)
qed

lemma lin_move:
  assumes "lin_inv J L h0 s" and "running s" and "owner s = Some t" and "mutex_inv s'"
    and "thread s' = (thread s)(t := pc)" and "is_query pc" and "\<And>q c. pc \<noteq> QDone q c"
    and "trace s' = trace s" and "owner s' = Some t" and "at_lock s' = at_lock s"
    and "progress J pc (at_lock s) (shared s')"
  shows "lin_inv J L h0 s'"
  using assms by (auto simp: lin_inv_def split: if_splits)

lemma step_lin: "step J L s s' \<Longrightarrow> lin_inv J L h0 s \<Longrightarrow> lin_inv J L h0 s'"
proof -
  assume st: "step J L s s'" and inv: "lin_inv J L h0 s"
  have mx: "mutex_inv s'" using step_mutex [OF st] inv by (simp add: lin_inv_def)
  have own: "owner s = Some t" if "in_query (thread s t)" for t
    using inv that by (simp add: lin_inv_def mutex_inv_def)
  have cur: "run J L h0 (trace s) (at_lock s) \<and> progress J (thread s t) (at_lock s) (shared s)"
    if "in_query (thread s t)" "running s" for t
    using inv own [OF that(1)] that(2) by (simp add: lin_inv_def)
  have q: "is_query (thread s t)" for t using inv by (simp add: lin_inv_def)
  from st show ?thesis
  proof (cases rule: step.cases)
    case (lock t q)
    then show ?thesis using inv mx by (auto simp: lin_inv_def progress_def)
  next
    case (enter t q)
    then show ?thesis using own [of t] cur [of t] mx inv
      by (intro lin_move [OF inv enter(2) own [of t]]) (auto simp: progress_def lin_inv_def loop_from_def)
  next
    case (short t q)
    then have "run J L h0 (trace s) (at_lock s)" "shared s = at_lock s"
      using cur [of t] by (simp_all add: progress_def)
    then show ?thesis
      unfolding short(1) using lin_leave [OF inv mx [unfolded short(1)]] by simp
  next
    case (find t q str rest kvs ids inserted i c m)
    with progress_find [of J q str rest kvs ids "at_lock s" "shared s" inserted i c m] cur [of t] own [of t]
    show ?thesis using mx
      by (intro lin_move [OF inv find(2)]) auto
  next
    case (find_fails t q str rest kvs ids e c m)
    with cur [of t] have run: "run J L h0 (trace s) (at_lock s)"
      and prog: "progress J (QLoop q (str # rest) kvs ids) (at_lock s) (shared s)"
      by simp_all
    show ?thesis unfolding find_fails(1)
      by (rule lin_leave [OF inv mx [unfolded find_fails(1)] run progress_find_fails [OF prog find_fails(4), symmetric]])
  next
    case (store t q kvs ids r d)
    with cur [of t] have run: "run J L h0 (trace s) (at_lock s)"
      and prog: "progress J (QLoop q [] kvs ids) (at_lock s) (shared s)"
      by simp_all
    show ?thesis unfolding store(1)
      by (rule lin_leave [OF inv mx [unfolded store(1)] run progress_write [OF prog store(4), symmetric]])
  qed (use q in \<open>metis is_query.simps\<close>)+
qed

lemma steps_lin: "steps J L s s' \<Longrightarrow> lin_inv J L h0 s \<Longrightarrow> lin_inv J L h0 s'"
  by (induction rule: steps.induct) (auto dest: step_lin)

lemma serving_lin:
  assumes "\<forall>t. \<exists>q. ths t = QStart q"
  shows "lin_inv J L h (serving h ths)"
proof -
  have "is_query (ths t) \<and> (\<forall>q c. ths t \<noteq> QDone q c) \<and> not_started (ths t)" for t
  proof -
    obtain q where "ths t = QStart q" using assms by blast
    then show ?thesis by (simp add: not_started_def)
  qed
  then show ?thesis
    using serving_mutex [of ths h] run_Nil by (auto simp: lin_inv_def serving_def)
qed

section \<open>What a query finds after an unload\<close>

lemma find_after_unload:
  assumes "libs_ok J L" and "libs_no_error J L" and "c \<noteq> max_num_id"
  shows "\<exists>c' m'. ms_find J s c (ms_unload J m) = (Inr (True, c), c', m')"
proof -
  note J = libs_okD(1) [OF assms(1)]
  obtain ins i c' m' where f: "ms_find J s c (ms_unload J m) = (Inr (ins, i), c', m')"
    using ms_find_returns [OF _ assms(3)] assms(2) unfolding libs_no_error_def by metis
  have "ms_view J (ms_unload J m) (cstr s) = None" by (simp add: mem.unload_view [OF J])
  with mem.find_absent [OF J f] f show ?thesis by auto
qed

lemma ds_write_good:
  assumes "libs_no_error J L" and "server_inv J L h"
  shows "\<exists>d. ds_write L (disk_storage h) kvs = (Inr (), d)"
proof -
  obtain d where d: "db (disk_storage h) = Some d"
    using assms(2) by (auto simp: server_inv_def ds_wf_def)
  obtain d' where "ldb_Write L d (kv_batch kvs) = (StOk, d')"
    using assms(1) unfolding libs_no_error_def leveldb_no_error_def by (metis prod.collapse)
  with d show ?thesis by (simp add: ds_write_def)
qed

lemma counter_not_used: "coherent idx tab c \<Longrightarrow> tab c = None"
  by (auto simp: coherent_def counter_fresh_def)

section \<open>Properties\<close>



definition demo_lookup :: query where
  "demo_lookup = Query_new\<lparr>q_op := ID2STR, q_ids := [1]\<rparr>"

definition demo_locked :: "((string \<times> num_id) list, (string \<times> string) list) system" where
  "demo_locked =
     (goto 0 (QLocked demo_lookup) (serving demo_server (\<lambda>t. QStart demo_lookup)))
       \<lparr>owner := Some 0, at_lock := demo_server\<rparr>"

definition demo_answered :: "((string \<times> num_id) list, (string \<times> string) list) system" where
  "demo_answered =
     leave 0 demo_lookup
       (query_impl (ms_find alist_judy) (ds_write alist_db) (ds_lookup alist_db) Query_new demo_lookup
          (shared demo_locked)) demo_locked"

lemma demo_locked_step:
  "step alist_judy alist_db (serving demo_server (\<lambda>t. QStart demo_lookup)) demo_locked"
proof -
  let ?s0 = "serving demo_server (\<lambda>t. QStart demo_lookup)"
  have "step alist_judy alist_db ?s0 ((goto 0 (QLocked demo_lookup) ?s0)\<lparr>owner := Some 0, at_lock := shared ?s0\<rparr>)"
    by (rule step.lock) (simp_all add: serving_def)
  then show ?thesis by (simp add: demo_locked_def serving_def)
qed

lemma demo_answered_steps:
  "steps alist_judy alist_db (serving demo_server (\<lambda>t. QStart demo_lookup)) demo_answered"
proof -
  have st2: "step alist_judy alist_db demo_locked demo_answered" unfolding demo_answered_def
    by (rule step.short) (simp_all add: demo_locked_def serving_def demo_lookup_def)
  show ?thesis by (rule steps_step [OF steps_step [OF steps_refl demo_locked_step] st2])
qed

lemma demo_answered_simps:
  "query_impl (ms_find alist_judy) (ds_write alist_db) (ds_lookup alist_db) Query_new demo_lookup demo_server =
     (Returned (Query_new\<lparr>q_op := ID2STR, q_strings := [''A'']\<rparr>), demo_server)"
  by (simp add: query_impl_def Query_new_def demo_lookup_def demo_server_def ds_lookup_def alist_db_def
      ds_new_def max_failure_idx_def)


text \<open>
  Queries exclude each other: in every state that the threads can reach, whatever
  requests they were given, at most one thread is between the locking and the unlocking of
  the mutex.
\<close>

theorem queries_exclusive:
  assumes "steps J L (serving h ths) s" and "\<forall>t. not_started (ths t)"
    and "in_query (thread s t)" and "in_query (thread s u)"
  shows "t = u"
  using steps_mutex [OF assms(1) serving_mutex [OF assms(2)]] assms(3,4)
  by (simp add: mutex_inv_def)

theorem queries_exclusive_witness:
  "in_query (thread demo_locked 0) \<and> \<not> in_query (thread demo_locked 1)"
proof -
  note st = steps_step [OF steps_refl demo_locked_step]
  have 0: "in_query (thread demo_locked 0)" by (simp add: demo_locked_def)
  have "\<forall>t :: nat. not_started (QStart demo_lookup)" by (simp add: not_started_def)
  from queries_exclusive [OF st this, of 0 1] 0 show ?thesis by auto
qed

text \<open>
  C20. Switching the service off does not wait for a running query, and so breaks the ids: on
  every good server, when a string-to-id query for a known string has passed the check of the
  flag and another thread's \<open>disable_s2i\<close> then empties the index, the query is answered with
  a second id for the string, and the database ends up with both.
\<close>

theorem unload_race:
  assumes "libs_ok J L" and "libs_no_error J L" and "server_inv J L h"
    and "\<not> disable_s2i_queries h" and "q_op q = STR2ID" and "q_strings q = [str]"
    and "srv_view J h (cstr str) = Some i" and "cnt h \<noteq> max_num_id"
    and "ths 0 = QStart q" and "ths 1 = DStart"
  shows "\<exists>s resp. steps J L (serving h ths) s \<and> thread s 0 = QDone q (Returned resp) \<and>
           q_ids resp = [cnt h] \<and> cnt h \<noteq> i \<and>
           (\<exists>u. srv_tab L (shared s) i = Some u \<and> cstr u = cstr str) \<and>
           srv_tab L (shared s) (cnt h) = Some str"
proof -
  let ?m = "ms_unload J (memory_storage h)"
  obtain c m where f: "ms_find J str (cnt h) ?m = (Inr (True, cnt h), c, m)"
    using find_after_unload [OF assms(1,2,8)] by blast
  obtain d where w: "ds_write L (disk_storage h) [(cnt h, str)] = (Inr (), d)"
    using ds_write_good [OF assms(2,3)] by blast
  have tab: "ds_view L d = (srv_tab L h)(cnt h \<mapsto> str)"
    using disk.write_tab [OF libs_okD(2) [OF assms(1)] w] by simp
  obtain u where u: "srv_tab L h i = Some u" "cstr u = cstr str" "i \<noteq> cnt h"
    using coherentD(1) [OF server_inv_coherent [OF assms(3,4)] assms(7)]
      counter_not_used [OF server_inv_coherent [OF assms(3,4)]] by fastforce
  define s0 where "s0 = serving h ths"
  define s1 where "s1 = (goto 0 (QLocked q) s0)\<lparr>owner := Some 0, at_lock := shared s0\<rparr>"
  define s2 where "s2 = goto 0 (QLoop q (q_strings q) [] (q_ids Query_new)) s1"
  define s3 where "s3 = goto 1 (if disable_s2i_queries (shared s2) then DDone else DUnload) s2"
  define s4 where "s4 = (goto 1 DFlag s3)\<lparr>shared := (shared s3)\<lparr>memory_storage := ms_unload J (memory_storage (shared s3))\<rparr>\<rparr>"
  define s5 where "s5 = (goto 0 (QLoop q [] (if True then [] @ [(cnt h, str)] else []) (q_ids Query_new @ [cnt h])) s4)
      \<lparr>shared := (shared s4)\<lparr>memory_storage := m, cnt := c\<rparr>\<rparr>"
  define s6 where "s6 = leave 0 q ((case Inr () :: error + unit of Inl e \<Rightarrow> raise e
      | Inr _ \<Rightarrow> Returned (Query_new\<lparr>q_ids := [cnt h], q_op := q_op q\<rparr>)), (shared s5)\<lparr>disk_storage := d\<rparr>) s5"
  note defs = s1_def s2_def s3_def s4_def s5_def s0_def serving_def
  have st1: "step J L s0 s1" unfolding s1_def by (rule step.lock) (simp_all add: s0_def serving_def assms(9))
  have st2: "step J L s1 s2" unfolding s2_def
    by (rule step.enter) (simp_all add: defs assms(4,5))
  have st3: "step J L s2 s3" unfolding s3_def
    by (rule step.disable_check) (simp_all add: defs assms(10) [unfolded One_nat_def])
  have st4: "step J L s3 s4" unfolding s4_def
    by (rule step.unload) (simp_all add: defs assms(4))
  have st5: "step J L s4 s5" unfolding s5_def
    by (rule step.find [where str = str]) (simp_all add: defs assms(4,6) f)
  have st6: "step J L s5 s6" unfolding s6_def
    by (rule step.store [where kvs = "[(cnt h, str)]"]) (simp_all add: defs w Query_new_def)
  have "steps J L s0 s6"
    by (rule steps_step [OF steps_step [OF steps_step [OF steps_step [OF steps_step [OF steps_step
          [OF steps_refl st1] st2] st3] st4] st5] st6])
  moreover have "thread s6 0 = QDone q (Returned (Query_new\<lparr>q_ids := [cnt h], q_op := q_op q\<rparr>))"
    "disk_storage (shared s6) = d"
    by (simp_all add: s6_def query_catch_def)
  ultimately show ?thesis using tab u unfolding s0_def
    by (intro exI [of _ s6] exI [of _ "Query_new\<lparr>q_ids := [cnt h], q_op := q_op q\<rparr>"]) auto
qed

theorem unload_race_witness:
  "\<exists>s resp. steps alist_judy alist_db
       (serving demo_server (\<lambda>t. if t = 0 then QStart (Query_new\<lparr>q_op := STR2ID, q_strings := [''A'']\<rparr>) else DStart)) s \<and>
     thread s 0 = QDone (Query_new\<lparr>q_op := STR2ID, q_strings := [''A'']\<rparr>) (Returned resp) \<and>
     q_ids resp = [3] \<and> srv_tab alist_db (shared s) 1 \<noteq> None \<and> srv_tab alist_db (shared s) 3 = Some ''A''"
proof -
  let ?q = "Query_new\<lparr>q_op := STR2ID, q_strings := [''A'']\<rparr>"
  have view: "srv_view alist_judy demo_server (cstr ''A'') = Some 1"
    by (simp add: demo_server_def ms_view_def alist_judy_def cstr_def)
  have h: "\<not> disable_s2i_queries demo_server" "cnt demo_server = 3" "cnt demo_server \<noteq> max_num_id"
    by (simp_all add: demo_server_def max_num_id_def)
  from unload_race [OF libs_ok_alist demo_server_inv h(1) _ _ view h(3),
      of ?q "\<lambda>t. if t = 0 then QStart ?q else DStart"] h(2)
  show ?thesis by fastforce
qed

end
