(* ===== verification/Progress.thy ===== *)
theory Progress
  imports Interleaving
begin

text \<open>
  The threads of the handler get their work done: the step relation of Interleaving has no
  infinite run and no deadlock.
\<close>

text \<open>The steps that a thread has before it, at most.\<close>

fun work :: "thread \<Rightarrow> nat" where
  "work (QStart q) = length (q_strings q) + 3"
| "work (QLocked q) = length (q_strings q) + 2"
| "work (QLoop q rest kvs ids) = length rest + 1"
| "work (QDone q c) = 0"
| "work DStart = 3"
| "work DUnload = 2"
| "work DFlag = 1"
| "work DDone = 0"
| "work (EStart junk) = 3"
| "work (ELoad junk) = 2"
| "work EFlag = 1"
| "work (EDone c) = 0"

definition finished :: "thread \<Rightarrow> bool" where
  "finished pc \<longleftrightarrow> (\<exists>q c. pc = QDone q c) \<or> pc = DDone \<or> (\<exists>c. pc = EDone c)"

lemma work_finished: "work pc = 0 \<longleftrightarrow> finished pc"
  by (cases pc) (simp_all add: finished_def)

lemma finished_not_in_query: "finished pc \<Longrightarrow> \<not> in_query pc"
  by (auto simp: finished_def)

lemma step_work:
  assumes "step J L s s'"
  shows "\<exists>t pc. thread s' = (thread s)(t := pc) \<and> work pc < work (thread s t)"
  using assms
proof (cases rule: step.cases)
  case (load t junk r m)
  then show ?thesis by (cases r) fastforce+
qed fastforce+

text \<open>A thread inside a query can always go on; so can the two switches.\<close>

lemma in_query_step:
  assumes "running s" and "in_query (thread s t)"
  shows "\<exists>s'. step J L s s'"
proof (cases "thread s t")
  case (QLocked q)
  then show ?thesis using step.enter [OF assms(1) QLocked] step.short [OF assms(1) QLocked] by blast
next
  case (QLoop q rest kvs ids)
  show ?thesis
  proof (cases rest)
    case Nil
    obtain r d where "ds_write L (disk_storage (shared s)) kvs = (r, d)" by fastforce
    with step.store [OF assms(1)] QLoop Nil show ?thesis by blast
  next
    case (Cons str rest')
    obtain r c m where f: "ms_find J str (cnt (shared s)) (memory_storage (shared s)) = (r, c, m)"
      by (metis prod.exhaust)
    with step.find [OF assms(1)] step.find_fails [OF assms(1)] QLoop Cons show ?thesis
      by (cases r) (metis prod.exhaust)+
  qed
qed (use assms(2) in simp_all)

lemma stuck_finished:
  assumes "mutex_inv s" and "running s" and "\<And>s'. \<not> step J L s s'"
  shows "finished (thread s t)"
proof -
  have "\<not> in_query (thread s u)" for u using in_query_step [OF assms(2)] assms(3) by blast
  then have none: "owner s = None" using assms(1) by (auto simp: mutex_inv_def)
  have "thread s t \<noteq> QStart q" for q using step.lock [OF assms(2) _ none] assms(3) by blast
  moreover have "thread s t \<noteq> DStart" using step.disable_check [OF assms(2)] assms(3) by blast
  moreover have "thread s t \<noteq> DUnload" using step.unload [OF assms(2)] assms(3) by blast
  moreover have "thread s t \<noteq> DFlag" using step.disable_flag [OF assms(2)] assms(3) by blast
  moreover have "thread s t \<noteq> EStart junk" for junk using step.enable_check [OF assms(2)] assms(3) by blast
  moreover have "thread s t \<noteq> ELoad junk" for junk using step.load [OF assms(2)] assms(3) by (metis prod.exhaust)
  moreover have "thread s t \<noteq> EFlag" using step.enable_flag [OF assms(2)] assms(3) by blast
  ultimately show ?thesis using \<open>\<And>u. \<not> in_query (thread s u)\<close> [of t]
    by (cases "thread s t") (auto simp: finished_def)
qed

lemma idle_mutex: "(\<And>t. \<not> in_query (ths t)) \<Longrightarrow> mutex_inv (serving h ths)"
  by (simp add: mutex_inv_def serving_def)

lemma sum_less_one:
  fixes f g :: "nat \<Rightarrow> nat"
  assumes "t < n" and "g t < f t" and "\<And>u. u \<noteq> t \<Longrightarrow> g u = f u"
  shows "(\<Sum>u<n. g u) < (\<Sum>u<n. f u)"
  using assms by (intro sum_strict_mono_ex1) (auto intro: order.strict_implies_order, metis le_refl order.strict_implies_order)

lemma steps_bounded:
  assumes "(step J L ^^ k) s0 s" and "\<forall>t \<ge> n. finished (thread s0 t)" and "mutex_inv s0"
  shows "k + (\<Sum>t<n. work (thread s t)) \<le> (\<Sum>t<n. work (thread s0 t)) \<and>
         (\<forall>t \<ge> n. finished (thread s t)) \<and> mutex_inv s"
  using assms(1)
proof (induction k arbitrary: s)
  case 0
  then show ?case using assms by simp
next
  case (Suc k)
  obtain s1 where s1: "(step J L ^^ k) s0 s1" "step J L s1 s" using Suc.prems by auto
  note IH = Suc.IH [OF s1(1)]
  obtain t pc where t: "thread s = (thread s1)(t := pc)" "work pc < work (thread s1 t)"
    using step_work [OF s1(2)] by blast
  have "t < n"
  proof (rule ccontr)
    assume "\<not> t < n"
    then have "work (thread s1 t) = 0" using IH by (simp add: work_finished)
    with t(2) show False by simp
  qed
  then have "(\<Sum>u<n. work (thread s u)) < (\<Sum>u<n. work (thread s1 u))"
    using t by (intro sum_less_one) auto
  with IH t(1) \<open>t < n\<close> step_mutex [OF s1(2)] show ?case by auto
qed

section \<open>Properties\<close>

text \<open>
  C15. Every schedule comes to an end, and no thread is left behind: when \<open>n\<close> threads are given
  a request each, then whatever the scheduler does, no run has more steps than the requests
  account for, and a state in which no thread can make a step, while the process still runs,
  is one in which every thread has finished its request.  There is no deadlock on the mutex.
\<close>

theorem threads_finish:
  assumes "\<forall>t < n. not_started (ths t)" and "\<forall>t \<ge> n. finished (ths t)"
    and "(step J L ^^ k) (serving h ths) s"
  shows "k \<le> (\<Sum>t<n. work (ths t)) \<and>
         (running s \<and> (\<forall>s'. \<not> step J L s s') \<longrightarrow> (\<forall>t. finished (thread s t)))"
proof -
  have "\<not> in_query (ths t)" for t
    using assms(1,2) finished_not_in_query by (cases "t < n") (auto simp: not_started_def)
  then have "mutex_inv (serving h ths)" by (rule idle_mutex)
  from steps_bounded [OF assms(3) _ this, of n] assms(2)
  have "k \<le> (\<Sum>t<n. work (ths t))" "mutex_inv s" by (auto simp: serving_def)
  with stuck_finished show ?thesis by blast
qed

theorem threads_finish_witness:
  "\<exists>s. (step alist_judy alist_db ^^ 2)
     (serving demo_server (\<lambda>t. if t = 0 then QStart demo_lookup else DDone)) s \<and>
     2 \<le> work (QStart demo_lookup) \<and> finished (thread s 0)"
proof -
  define s0 where "s0 = (serving demo_server (\<lambda>t. if t = 0 then QStart demo_lookup else DDone)
      :: ((string \<times> num_id) list, (string \<times> string) list) system)"
  define s1 where "s1 = (goto 0 (QLocked demo_lookup) s0)\<lparr>owner := Some 0, at_lock := shared s0\<rparr>"
  define s2 where "s2 = leave 0 demo_lookup
      (query_impl (ms_find alist_judy) (ds_write alist_db) (ds_lookup alist_db) Query_new demo_lookup (shared s1)) s1"
  have "step alist_judy alist_db s0 s1" unfolding s1_def
    by (rule step.lock) (simp_all add: s0_def serving_def)
  moreover have "step alist_judy alist_db s1 s2" unfolding s2_def
    by (rule step.short) (simp_all add: s1_def s0_def serving_def demo_lookup_def)
  ultimately have st: "(step alist_judy alist_db ^^ 2) s0 s2" by (auto simp: numeral_2_eq_2)
  have "\<forall>t < (1 :: nat). not_started (if t = 0 then QStart demo_lookup else DDone)"
    "\<forall>t \<ge> (1 :: nat). finished (if t = 0 then QStart demo_lookup else DDone)"
    by (simp_all add: not_started_def finished_def)
  from threads_finish [OF this st [unfolded s0_def]]
  have "2 \<le> work (QStart demo_lookup)" by (simp add: lessThan_Suc)
  moreover have "finished (thread s2 0)" by (simp add: s2_def finished_def)
  ultimately show ?thesis using st unfolding s0_def by blast
qed

end
