(* ===== verification/Shared_Ids.thy ===== *)
theory Shared_Ids
  imports Interleaving
begin

text \<open>
  What the threads' clients rely on: the ids that concurrent string-to-id queries hand out.
  Also the other direction of linearizability: a thread that has the mutex to itself answers
  its query as the sequential handler does.
\<close>

section \<open>A query that is not disturbed\<close>

lemma steps_trans: "steps J L b c \<Longrightarrow> steps J L a b \<Longrightarrow> steps J L a c"
  by (induction rule: steps.induct) (auto intro: steps_step)

text \<open>A state in which thread \<open>t\<close> has left \<open>s\<close> with the outcome \<open>r\<close> of its query.\<close>

definition left_with :: "nat \<Rightarrow> query \<Rightarrow> query call \<times> ('j, 'db) server \<Rightarrow> ('j, 'db) system \<Rightarrow> ('j, 'db) system \<Rightarrow> bool" where
  "left_with t q r s s' \<longleftrightarrow>
     thread s' = (thread s)(t := QDone q (fst (query_catch r))) \<and> shared s' = snd (query_catch r) \<and>
     owner s' = None \<and> running s' = answered (RepQuery (fst (query_catch r))) \<and>
     trace s' = trace s @ [(ReqQuery q, RepQuery (fst (query_catch r)))]"

lemma left_with_leave:
  "thread s0 = (thread s)(t := pc) \<Longrightarrow> trace s0 = trace s \<Longrightarrow> left_with t q r s (leave t q r s0)"
  by (simp add: left_with_def)

lemma loop_leaves:
  assumes "running s" and "thread s t = QLoop q rest kvs ids" and "progress J (thread s t) h0 (shared s)"
  shows "\<exists>s'. steps J L s s' \<and>
           left_with t q (query_impl (ms_find J) (ds_write L) (ds_lookup L) Query_new q h0) s s'"
  using assms
proof (induction rest arbitrary: s kvs ids)
  case Nil
  obtain r d where w: "ds_write L (disk_storage (shared s)) kvs = (r, d)" by fastforce
  note st = step.store [OF Nil.prems(1,2) w]
  have "thread s = (thread s)(t := QLoop q [] kvs ids)" using Nil.prems(2) by auto
  then show ?case
    using steps_step [OF steps_refl st] progress_write [OF Nil.prems(3) [unfolded Nil.prems(2)] w]
    by (auto intro!: left_with_leave)
next
  case (Cons str rest)
  note P = Cons.prems(3) [unfolded Cons.prems(2)]
  obtain r c m where f: "ms_find J str (cnt (shared s)) (memory_storage (shared s)) = (r, c, m)"
    by (metis prod.exhaust)
  show ?case
  proof (cases r)
    case (Inl e)
    note st = step.find_fails [OF Cons.prems(1,2) f [unfolded Inl]]
    have "thread s = (thread s)(t := QLoop q (str # rest) kvs ids)" using Cons.prems(2) by auto
    then show ?thesis using steps_step [OF steps_refl st] progress_find_fails [OF P f [unfolded Inl]]
      by (auto intro!: left_with_leave)
  next
    case (Inr x)
    obtain ins i where x: "x = (ins, i)" by fastforce
    note f' = f [unfolded Inr x]
    note st = step.find [OF Cons.prems(1,2) f']
    let ?s = "(goto t (QLoop q rest (if ins then kvs @ [(i, str)] else kvs) (ids @ [i])) s)
        \<lparr>shared := (shared s)\<lparr>memory_storage := m, cnt := c\<rparr>\<rparr>"
    have "\<exists>s'. steps J L ?s s' \<and>
        left_with t q (query_impl (ms_find J) (ds_write L) (ds_lookup L) Query_new q h0) ?s s'"
      by (rule Cons.IH) (use Cons.prems(1) progress_find [OF P f'] in simp_all)
    then show ?thesis using steps_trans [OF _ steps_step [OF steps_refl st]]
      by (auto simp: left_with_def)
  qed
qed

lemma query_runs_alone:
  assumes "running s" and "owner s = None" and "thread s t = QStart q"
    and "NumeratorHandler_query J L Query_new q (shared s) = (c, h')"
  shows "\<exists>s'. steps J L s s' \<and> thread s' = (thread s)(t := QDone q c) \<and> shared s' = h' \<and>
           owner s' = None \<and> running s' = answered (RepQuery c) \<and>
           trace s' = trace s @ [(ReqQuery q, RepQuery c)]"
proof -
  let ?r = "query_impl (ms_find J) (ds_write L) (ds_lookup L) Query_new q (shared s)"
  let ?s1 = "(goto t (QLocked q) s)\<lparr>owner := Some t, at_lock := shared s\<rparr>"
  note st1 = steps_step [OF steps_refl step.lock [OF assms(1,3,2), of J L]]
  have "\<exists>s'. steps J L ?s1 s' \<and> left_with t q ?r ?s1 s'"
  proof (cases "q_op q = STR2ID \<and> \<not> disable_s2i_queries (shared s)")
    case True
    let ?s2 = "goto t (QLoop q (q_strings q) [] (q_ids Query_new)) ?s1"
    have st2: "step J L ?s1 ?s2" by (rule step.enter) (use assms True in simp_all)
    have "\<exists>s'. steps J L ?s2 s' \<and> left_with t q ?r ?s2 s'"
      by (rule loop_leaves) (use assms True in \<open>simp_all add: progress_def loop_from_def\<close>)
    then show ?thesis using steps_trans [OF _ steps_step [OF steps_refl st2]]
      by (auto simp: left_with_def)
  next
    case False
    have "step J L ?s1 (leave t q ?r ?s1)" using step.short [of ?s1 t q J L] assms(1) False by simp
    from steps_step [OF steps_refl this] show ?thesis
      by (auto intro!: left_with_leave)
  qed
  moreover have "query_catch ?r = (c, h')" using assms(4) by (simp add: NumeratorHandler_query_def)
  ultimately show ?thesis using steps_trans [OF _ st1] by (auto simp: left_with_def)
qed

section \<open>The entries behind the answers\<close>

inductive_simps run_Cons_iff [simp]: "run J L h ((req, rep) # tr) h'"

lemma run_append:
  "run J L h (tr1 @ tr2) h' \<longleftrightarrow> (\<exists>h1. run J L h tr1 h1 \<and> run J L h1 tr2 h')"
proof (induction tr1 arbitrary: h)
  case Nil
  then show ?case by (simp add: run_Nil_iff)
next
  case (Cons x tr1)
  then show ?case by (cases x) fastforce
qed

text \<open>An id that was answered in a run names an entry with the string's text at its end.\<close>

lemma answered_entry:
  assumes "libs_ok J L" and "server_inv J L h" and "run J L h tr h'"
    and "(ReqQuery q, RepQuery (Returned r)) \<in> set tr" and "q_op q = STR2ID"
    and "j < length (q_strings q)"
  shows "\<exists>u. srv_tab L h' (q_ids r ! j) = Some u \<and> cstr u = cstr (q_strings q ! j)"
proof -
  obtain tr1 tr2 where tr: "tr = tr1 @ (ReqQuery q, RepQuery (Returned r)) # tr2"
    using split_list [OF assms(4)] by blast
  obtain h1 where h1: "run J L h tr1 h1" "run J L h1 ((ReqQuery q, RepQuery (Returned r)) # tr2) h'"
    using assms(3) unfolding tr run_append by blast
  obtain c h2 where c: "NumeratorHandler_query J L Query_new q h1 = (c, h2)" by fastforce
  with h1 have r: "run J L h tr1 h1" "NumeratorHandler_query J L Query_new q h1 = (Returned r, h2)"
    "run J L h2 tr2 h'"
    by simp_all
  have "server_inv J L h1" using run_inv [OF assms(1) r(1) assms(2)] by blast
  note v = s2i_returned_view [OF assms(1) this assms(5) r(2) assms(6)]
  obtain u where u: "srv_tab L h2 (q_ids r ! j) = Some u" "cstr u = cstr (q_strings q ! j)"
    using coherentD(1) [OF server_inv_coherent [OF v(3,2)] v(1)] by blast
  have "srv_tab L h2 \<subseteq>\<^sub>m srv_tab L h'" using run_inv [OF assms(1) r(3) v(3)] by blast
  with u show ?thesis by (auto simp: map_le_def dom_def)
qed

lemma lin_state:
  assumes "lin_inv J L h s" and "running s"
  obtains h' where "run J L h (trace s) h'"
  using assms by (auto simp: lin_inv_def split: option.splits)

section \<open>Properties\<close>

text \<open>
  C14. Threads that share a handler agree on the ids: when any number of threads serve queries
  on a good server whose table has every string once, then at every moment, and whatever the
  schedule was, any two answers to string-to-id queries give two strings the same id if and
  only if the strings are equal up to their first NUL.
\<close>

theorem threads_agree:
  assumes "libs_ok J L" and "server_inv J L h" and "unique_strings (srv_tab L h)"
    and "steps J L (serving h ths) s" and "\<forall>t. \<exists>q. ths t = QStart q" and "running s"
    and "thread s t = QDone q1 (Returned r1)" and "thread s u = QDone q2 (Returned r2)"
    and "q_op q1 = STR2ID" and "q_op q2 = STR2ID"
    and "j < length (q_strings q1)" and "k < length (q_strings q2)"
  shows "q_ids r1 ! j = q_ids r2 ! k \<longleftrightarrow> cstr (q_strings q1 ! j) = cstr (q_strings q2 ! k)"
proof -
  note inv = steps_lin [OF assms(4) serving_lin [OF assms(5)]]
  obtain h' where run: "run J L h (trace s) h'" using lin_state [OF inv assms(6)] .
  have "(ReqQuery q1, RepQuery (Returned r1)) \<in> set (trace s)"
    "(ReqQuery q2, RepQuery (Returned r2)) \<in> set (trace s)"
    using inv assms(7,8) by (simp_all add: lin_inv_def)
  then obtain v w where "srv_tab L h' (q_ids r1 ! j) = Some v" "cstr v = cstr (q_strings q1 ! j)"
    "srv_tab L h' (q_ids r2 ! k) = Some w" "cstr w = cstr (q_strings q2 ! k)"
    using answered_entry [OF assms(1,2) run _ assms(9,11)] answered_entry [OF assms(1,2) run _ assms(10,12)]
    by blast
  moreover have "unique_strings (srv_tab L h')" using run_inv [OF assms(1) run assms(2)] assms(3) by blast
  ultimately show ?thesis unfolding unique_strings_def by (metis option.inject)
qed

lemma demo_query2_first:
  "\<exists>h3. NumeratorHandler_query alist_judy alist_db Query_new demo_query2 demo_server =
     (Returned (Query_new\<lparr>q_op := STR2ID, q_ids := [3, 2]\<rparr>), h3)"
  by (simp add: NumeratorHandler_query_def query_catch_def query_impl_def demo_query2_def Query_new_def
      demo_server_def ms_find_def ms_new_def alist_judy_def cstr_def max_num_id_def
      ds_write_def alist_db_def ds_new_def kv_batch_def alist_put_def)

theorem threads_agree_witness:
  "\<exists>s r1 r2. steps alist_judy alist_db
       (serving empty_server (\<lambda>t. QStart (if t = 0 then demo_query else demo_query2))) s \<and>
     thread s 0 = QDone demo_query (Returned r1) \<and> thread s 1 = QDone demo_query2 (Returned r2) \<and>
     q_ids r1 ! 1 = q_ids r2 ! 1 \<and> q_ids r1 ! 0 \<noteq> q_ids r2 ! 0"
proof -
  define ths where "ths = (\<lambda>t :: nat. QStart (if t = 0 then demo_query else demo_query2))"
  let ?s0 = "serving empty_server ths"
  obtain s1 where s1: "steps alist_judy alist_db ?s0 s1" "running s1" "owner s1 = None"
      "thread s1 = ths(0 := QDone demo_query (Returned (Query_new\<lparr>q_op := STR2ID, q_ids := [1, 2]\<rparr>)))"
      "shared s1 = demo_server"
    using query_runs_alone [of ?s0 0 demo_query alist_judy alist_db] demo_query_reply
    by (auto simp: serving_def ths_def)
  obtain h3 where h3: "NumeratorHandler_query alist_judy alist_db Query_new demo_query2 (shared s1) =
     (Returned (Query_new\<lparr>q_op := STR2ID, q_ids := [3, 2]\<rparr>), h3)"
    using demo_query2_first s1(5) by auto
  have "thread s1 1 = QStart demo_query2" by (simp add: s1(4) ths_def)
  from query_runs_alone [OF s1(2,3) this h3] obtain s2 where s2: "steps alist_judy alist_db s1 s2" "running s2"
      "thread s2 = (thread s1)(1 := QDone demo_query2 (Returned (Query_new\<lparr>q_op := STR2ID, q_ids := [3, 2]\<rparr>)))"
    by auto
  note st = steps_trans [OF s2(1) s1(1)]
  have un: "unique_strings (srv_tab alist_db empty_server)" by (simp add: unique_strings_def)
  have q: "\<forall>t. \<exists>q. ths t = QStart q" by (simp add: ths_def)
  have t: "thread s2 0 = QDone demo_query (Returned (Query_new\<lparr>q_op := STR2ID, q_ids := [1, 2]\<rparr>))"
    "thread s2 1 = QDone demo_query2 (Returned (Query_new\<lparr>q_op := STR2ID, q_ids := [3, 2]\<rparr>))"
    by (simp_all add: s2(3) s1(4))
  note agree = threads_agree [OF libs_ok_alist(1) empty_server_inv un st q s2(2) t]
  have "q_ids (Query_new\<lparr>q_op := STR2ID, q_ids := [1, 2]\<rparr>) ! 1 = q_ids (Query_new\<lparr>q_op := STR2ID, q_ids := [3, 2]\<rparr>) ! 1"
    "q_ids (Query_new\<lparr>q_op := STR2ID, q_ids := [1, 2]\<rparr>) ! 0 \<noteq> q_ids (Query_new\<lparr>q_op := STR2ID, q_ids := [3, 2]\<rparr>) ! 0"
    using agree [of 1 1] agree [of 0 0] by (simp_all add: demo_query_def demo_query2_def cstr_def)
  with st t show ?thesis unfolding ths_def by blast
qed

end
