(* ===== verification/Switching.thy ===== *)
theory Switching
  imports Shared_Ids
begin

text \<open>
  All threads of the handler together: queries, \<open>disable_s2i\<close> and \<open>enable_s2i\<close> in any
  interleaving.  Switching may give a string a second id (Interleaving), but that is all it
  can do: this theory has the invariant of every schedule, and with it what a new process
  finds in the database when the old one is killed at any moment.
\<close>

section \<open>What the replies claim of the table\<close>

definition names :: "(num_id \<rightharpoonup> string) \<Rightarrow> num_id \<Rightarrow> string \<Rightarrow> bool" where
  "names tab i str \<longleftrightarrow> (\<exists>u. tab i = Some u \<and> cstr u = cstr str)"

text \<open>
  A reply is true of a table: each id that was given out names its string, and each string
  that was given out is that of its id.
\<close>

fun reply_true :: "(num_id \<rightharpoonup> string) \<Rightarrow> request \<times> reply \<Rightarrow> bool" where
  "reply_true tab (ReqQuery q, RepQuery (Returned r)) =
     (if q_op q = STR2ID then list_all2 (names tab) (q_ids r) (q_strings q)
      else if q_op q = ID2STR then
        (\<forall>k < length (q_ids q). of_nat k \<notin> set (q_failures r) \<longrightarrow> tab (q_ids q ! k) = Some (q_strings r ! k))
      else True)"
| "reply_true tab _ = True"

lemma names_mono: "tab \<subseteq>\<^sub>m tab' \<Longrightarrow> names tab i str \<Longrightarrow> names tab' i str"
  by (auto simp: names_def map_le_def dom_def)

lemma list_names_mono:
  "tab \<subseteq>\<^sub>m tab' \<Longrightarrow> list_all2 (names tab) ids ss \<Longrightarrow> list_all2 (names tab') ids ss"
  by (auto elim: list_all2_mono names_mono)

lemma map_le_Some: "tab \<subseteq>\<^sub>m tab' \<Longrightarrow> tab i = Some u \<Longrightarrow> tab' i = Some u"
  by (auto simp: map_le_def dom_def)

lemma reply_true_mono: "tab \<subseteq>\<^sub>m tab' \<Longrightarrow> reply_true tab x \<Longrightarrow> reply_true tab' x"
  by (cases "(tab, x)" rule: reply_true.cases)
     (auto intro: list_names_mono map_le_Some)

lemma index_sound_mono: "tab \<subseteq>\<^sub>m tab' \<Longrightarrow> index_sound idx tab \<Longrightarrow> index_sound idx tab'"
  unfolding index_sound_def using map_le_Some by metis

text \<open>A lookup is true of the table it read.\<close>

lemma lookup_true:
  assumes "leveldb_ok L" and "ds_lookup L ds keys = Inr (vs, fs)"
    and "k < length keys" and "of_nat k \<notin> set fs"
  shows "ds_view L ds (keys ! k) = Some (vs ! k)"
proof -
  have v: "vs = lookup_values (ds_view L ds) keys" "fs = lookup_failures (ds_view L ds) 0 keys"
    using disk.lookup_tab [OF assms(1,2)] by simp_all
  have "ds_view L ds (keys ! k) \<noteq> None"
    using assms(3,4) unfolding v(2) lookup_failures_def by auto
  with assms(3) show ?thesis unfolding v(1) lookup_values_def by auto
qed

section \<open>Loading, whatever its outcome\<close>

lemma load_loop_sound:
  assumes "judy_ok J" and "judy_no_error J"
    and "\<forall>(st, k, v) \<in> set es. length k = 8 \<and> tab (bytes_id k) = Some v"
    and "index_sound (ms_view J m) tab" and "load_loop (ms_insert J) es c mx m = (r, m')"
  shows "index_sound (ms_view J m') tab"
  using assms(3,4,5)
proof (induction es arbitrary: c mx m)
  case Nil
  then show ?case by simp
next
  case (Cons e es)
  obtain st k v where e: "e = (st, k, v)" by (cases e)
  have kv: "length k = 8" "tab (bytes_id k) = Some v" using Cons.prems(1) e by auto
  show ?case
  proof (cases "st = StOk")
    case False
    with Cons.prems e show ?thesis by simp
  next
    case True
    obtain m1 where i: "ms_insert J v (bytes_id k) m = (Inr (), m1)"
      using ms_insert_returns [OF assms(2)] by blast
    have "index_sound (ms_view J m1) tab"
      using Cons.prems(2) kv(2) mem.insert_view [OF assms(1) i] by (auto simp: index_sound_def)
    then show ?thesis
      using Cons.IH [of m1] Cons.prems(1,3) True e kv i by (auto simp: memcpy_id_full Let_def)
  qed
qed

lemma load_sound:
  assumes "judy_ok J" and "judy_no_error J" and "leveldb_ok L" and "ds_wf L ds"
    and "ds_view L ds \<subseteq>\<^sub>m tab" and "index_sound (ms_view J m) tab"
    and "ds_load_in_memory L (ms_insert J) junk ds m = (r, m')"
  shows "index_sound (ms_view J m') tab"
proof -
  obtain d where d: "db ds = Some d" "\<forall>k \<in> dom (ldb_view L d). length k = 8"
    using assms(4) by (auto simp: ds_wf_def)
  have "length k = 8 \<and> tab (bytes_id k) = Some v" if "(st, k, v) \<in> set (fst (ldb_Iterate L False d))" for st k v
  proof -
    have kv: "ldb_view L d k = Some v"
      using that assms(3) unfolding leveldb_ok_def by blast
    then have l: "length k = 8" using d(2) by blast
    then have "ds_view L ds (bytes_id k) = Some v" using kv d(1) by (simp add: id_bytes_bytes_id)
    with l show ?thesis using map_le_Some [OF assms(5)] by blast
  qed
  moreover have "load_loop (ms_insert J) (fst (ldb_Iterate L False d)) junk 0 m = (r, m')"
    using assms(7) d(1) by (simp add: ds_load_in_memory_def)
  ultimately show ?thesis using load_loop_sound [OF assms(1,2) _ assms(6)] by blast
qed

section \<open>The invariant of every schedule\<close>

text \<open>
  The query that holds the mutex has given out ids whose pairs it has not yet written:
  \<open>promised\<close> is the table with these pairs.
\<close>

fun pending :: "thread \<Rightarrow> kv_pair list" where
  "pending (QLoop q rest kvs ids) = kvs"
| "pending _ = []"

definition promised :: "'db leveldb \<Rightarrow> ('j, 'db) system \<Rightarrow> num_id \<rightharpoonup> string" where
  "promised L s =
     (case owner s of
        None \<Rightarrow> srv_tab L (shared s)
      | Some t \<Rightarrow> put_all (srv_tab L (shared s)) (pending (thread s t)))"

text \<open>How far a thread has got: the ids it has collected name the strings it has done.\<close>

fun loop_true :: "(num_id \<rightharpoonup> string) \<Rightarrow> thread \<Rightarrow> bool" where
  "loop_true tab (QLoop q rest kvs ids) =
     (q_op q = STR2ID \<and> (\<exists>past. q_strings q = past @ rest \<and> list_all2 (names tab) ids past))"
| "loop_true tab _ = True"

definition safe :: "'j judy \<Rightarrow> 'db leveldb \<Rightarrow> (num_id \<rightharpoonup> string) \<Rightarrow> ('j, 'db) system \<Rightarrow> bool" where
  "safe J L tab0 s \<longleftrightarrow>
     index_sound (srv_view J (shared s)) (promised L s) \<and>
     counter_fresh (promised L s) (cnt (shared s)) \<and>
     tab0 \<subseteq>\<^sub>m srv_tab L (shared s) \<and> srv_tab L (shared s) \<subseteq>\<^sub>m promised L s \<and>
     ds_wf L (disk_storage (shared s)) \<and>
     (\<forall>t. loop_true (promised L s) (thread s t)) \<and>
     (\<forall>x \<in> set (trace s). reply_true (srv_tab L (shared s)) x)"

definition safe_inv :: "'j judy \<Rightarrow> 'db leveldb \<Rightarrow> (num_id \<rightharpoonup> string) \<Rightarrow> ('j, 'db) system \<Rightarrow> bool" where
  "safe_inv J L tab0 s \<longleftrightarrow> mutex_inv s \<and> (running s \<longrightarrow> safe J L tab0 s)"

lemma idle_simps [simp]: "\<not> in_query pc \<Longrightarrow> pending pc = []" "\<not> in_query pc \<Longrightarrow> loop_true tab pc"
  by (cases pc; simp)+

lemma loop_true_mono: "tab \<subseteq>\<^sub>m tab' \<Longrightarrow> loop_true tab pc \<Longrightarrow> loop_true tab' pc"
  by (cases pc) (auto intro: list_names_mono)

text \<open>A step that touches neither the database nor the counter.\<close>

lemma safe_quiet:
  assumes "safe J L tab0 s" and "promised L s' = promised L s"
    and "disk_storage (shared s') = disk_storage (shared s)" and "cnt (shared s') = cnt (shared s)"
    and "thread s' = (thread s)(t := pc)" and "loop_true (promised L s) pc" and "trace s' = trace s"
    and "index_sound (srv_view J (shared s')) (promised L s)"
  shows "safe J L tab0 s'"
  using assms by (simp add: safe_def)

text \<open>The steps of a thread that is no query.\<close>

lemma promised_switch:
  assumes "mutex_inv s" and "\<not> in_query (thread s t)" and "owner s' = owner s"
    and "disk_storage (shared s') = disk_storage (shared s)" and "thread s' = (thread s)(t := pc)"
  shows "promised L s' = promised L s"
proof -
  have "owner s \<noteq> Some t" using assms(1,2) by (simp add: mutex_inv_def)
  with assms(3-5) show ?thesis by (auto simp: promised_def split: option.split)
qed

lemma safe_switch:
  assumes "safe J L tab0 s" and "mutex_inv s" and "\<not> in_query (thread s t)" and "\<not> in_query pc"
    and "thread s' = (thread s)(t := pc)" and "owner s' = owner s" and "trace s' = trace s"
    and "disk_storage (shared s') = disk_storage (shared s)" and "cnt (shared s') = cnt (shared s)"
    and "index_sound (srv_view J (shared s')) (promised L s)"
  shows "safe J L tab0 s'"
  by (rule safe_quiet [OF assms(1) promised_switch [OF assms(2,3,6,8,5)] assms(8,9,5) _ assms(7,10)])
     (simp add: assms(4))

lemma promised_owner: "owner s = Some t \<Longrightarrow> promised L s = put_all (srv_tab L (shared s)) (pending (thread s t))"
  by (simp add: promised_def)

text \<open>One round of the loop.\<close>

lemma safe_find:
  assumes "judy_ok J" and "safe J L tab0 s" and "mutex_inv s"
    and t: "thread s t = QLoop q (str # rest) kvs ids"
    and f: "ms_find J str (cnt (shared s)) (memory_storage (shared s)) = (Inr (ins, i), c, m)"
    and s': "s' = (goto t (QLoop q rest (if ins then kvs @ [(i, str)] else kvs) (ids @ [i])) s)
        \<lparr>shared := (shared s)\<lparr>memory_storage := m, cnt := c\<rparr>\<rparr>"
  shows "safe J L tab0 s'"
proof -
  have "in_query (thread s t)" by (simp add: t)
  then have o: "owner s = Some t" using assms(3) by (simp add: mutex_inv_def)
  let ?P = "promised L s" and ?idx = "srv_view J (shared s)"
  have P: "?P = put_all (srv_tab L (shared s)) kvs" using promised_owner [OF o] t by simp
  have P': "promised L s' = (if ins then ?P(i \<mapsto> str) else ?P)"
    using o unfolding P by (subst promised_owner [of _ t]) (simp_all add: s')
  have sound: "index_sound ?idx ?P" and fresh: "counter_fresh ?P (cnt (shared s))"
    and lt: "loop_true ?P (thread s u)" for u
    using assms(2) by (simp_all add: safe_def)
  have "index_sound (ms_view J m) (promised L s') \<and> counter_fresh (promised L s') c \<and>
        ?P \<subseteq>\<^sub>m promised L s' \<and> names (promised L s') i str"
  proof (cases "?idx (cstr str)")
    case (Some j)
    with mem.find_present [OF assms(1) f] have "\<not> ins" "i = j" "c = cnt (shared s)" "ms_view J m = ?idx"
      by auto
    moreover obtain u where "?P j = Some u" "cstr u = cstr str"
      using sound Some unfolding index_sound_def by blast
    ultimately show ?thesis using sound fresh by (auto simp: P' names_def)
  next
    case None
    with mem.find_absent [OF assms(1) f]
    have v: "ins" "i = cnt (shared s)" "i \<noteq> max_num_id" "c = i + 1" "ms_view J m = ?idx(cstr str \<mapsto> i)"
      by auto
    have new: "i \<notin> dom ?P" using fresh v(2) by (auto simp: counter_fresh_def)
    then have le: "?P \<subseteq>\<^sub>m ?P(i \<mapsto> str)" by (auto simp: map_le_def)
    have c: "sint c = sint i + 1" using sint_num_id_plus_1 [OF v(3)] v(4) by simp
    have "sint k < sint c" if "k \<in> dom (?P(i \<mapsto> str))" for k
    proof (cases "k = i")
      case False
      with that have "k \<in> dom ?P" by auto
      then have "sint k < sint i" using fresh v(2) by (simp add: counter_fresh_def)
      with c show ?thesis by simp
    qed (simp add: c)
    moreover have "0 < sint c" using fresh v(2) c by (simp add: counter_fresh_def)
    ultimately have "counter_fresh (?P(i \<mapsto> str)) c" by (simp add: counter_fresh_def)
    moreover have "index_sound (ms_view J m) (?P(i \<mapsto> str))"
      using index_sound_mono [OF le sound] v(5) by (auto simp: index_sound_def)
    ultimately show ?thesis using le v(1) by (simp add: P' names_def)
  qed
  then have res: "index_sound (ms_view J m) (promised L s')" "counter_fresh (promised L s') c"
    "?P \<subseteq>\<^sub>m promised L s'" "names (promised L s') i str"
    by auto
  have "loop_true (promised L s') (thread s' u)" for u
  proof (cases "u = t")
    case True
    obtain past where past: "q_op q = STR2ID" "q_strings q = past @ str # rest" "list_all2 (names ?P) ids past"
      using lt [of t] t by auto
    have "list_all2 (names (promised L s')) (ids @ [i]) (past @ [str])"
      using list_names_mono [OF res(3) past(3)] res(4) by (simp add: list_all2_appendI)
    with past(1,2) True show ?thesis by (auto simp: s' intro!: exI [of _ "past @ [str]"])
  next
    case False
    then show ?thesis using loop_true_mono [OF res(3) lt] by (simp add: s')
  qed
  moreover have "srv_tab L (shared s') \<subseteq>\<^sub>m promised L s'"
    using assms(2) res(3) by (auto simp: safe_def s' intro: map_le_trans)
  ultimately show ?thesis using assms(2) res by (simp add: safe_def s')
qed

text \<open>A query that ends.  With an error the process is gone; else its promises are kept.\<close>

lemma safe_leave:
  assumes "safe J L tab0 s" and "shared (leave t q r s) = h"
    and "index_sound (srv_view J h) (srv_tab L h)" and "counter_fresh (srv_tab L h) (cnt h)"
    and "srv_tab L (shared s) \<subseteq>\<^sub>m srv_tab L h" and "srv_tab L h = promised L s" and "ds_wf L (disk_storage h)"
    and "reply_true (srv_tab L h) (ReqQuery q, RepQuery (fst (query_catch r)))"
  shows "safe J L tab0 (leave t q r s)"
proof -
  have "promised L (leave t q r s) = srv_tab L h" using assms(2) by (simp add: promised_def)
  moreover have "tab0 \<subseteq>\<^sub>m srv_tab L h" using assms(1,5) by (auto simp: safe_def intro: map_le_trans)
  moreover have "reply_true (srv_tab L h) x" if "x \<in> set (trace s)" for x
    using that assms(1) reply_true_mono [OF assms(5)] by (simp add: safe_def)
  moreover have "loop_true (srv_tab L h) (thread s u)" for u
    using assms(1,6) by (simp add: safe_def)
  ultimately show ?thesis using assms(2-8) by (simp add: safe_def)
qed

text \<open>A query that never enters the loop: its reply is true, and it changes nothing.\<close>

lemma short_true:
  assumes "leveldb_ok L" and "\<not> (q_op q = STR2ID \<and> \<not> disable_s2i_queries h)"
    and "query_catch (query_impl (ms_find J) (ds_write L) (ds_lookup L) Query_new q h) = (c, h')"
  shows "h' = h" and "reply_true (srv_tab L h) (ReqQuery q, RepQuery c)"
  using assms(2,3) lookup_true [OF assms(1)]
  by (auto simp: query_impl_def query_catch_def split: sum.splits prod.splits call.splits if_splits
      elim: raise.elims)

lemma safe_short:
  assumes "leveldb_ok L" and "safe J L tab0 s" and "owner s = Some t" and "thread s t = QLocked q"
    and "\<not> (q_op q = STR2ID \<and> \<not> disable_s2i_queries (shared s))"
  shows "safe J L tab0 (leave t q (query_impl (ms_find J) (ds_write L) (ds_lookup L) Query_new q (shared s)) s)"
proof -
  obtain c h' where c: "query_catch (query_impl (ms_find J) (ds_write L) (ds_lookup L) Query_new q (shared s)) = (c, h')"
    by fastforce
  note tr = short_true [OF assms(1,5) c]
  have "promised L s = srv_tab L (shared s)" using promised_owner [OF assms(3)] assms(4) by simp
  with assms(2) show ?thesis
    by (intro safe_leave [OF assms(2), of t q _ "shared s"]) (use tr c in \<open>auto simp: safe_def\<close>)
qed

lemma safe_store:
  assumes "leveldb_ok L" and "safe J L tab0 s" and "owner s = Some t" and "thread s t = QLoop q [] kvs ids"
    and w: "ds_write L (disk_storage (shared s)) kvs = (Inr (), d)"
  shows "safe J L tab0
           (leave t q (Returned (Query_new\<lparr>q_ids := ids, q_op := q_op q\<rparr>), (shared s)\<lparr>disk_storage := d\<rparr>) s)"
proof -
  have P: "ds_view L d = promised L s"
    using disk.write_tab [OF assms(1) w] promised_owner [OF assms(3)] assms(4) by simp
  have "loop_true (promised L s) (thread s t)" using assms(2) by (simp add: safe_def)
  then have "list_all2 (names (ds_view L d)) ids (q_strings q)" "q_op q = STR2ID"
    by (simp_all add: assms(4) P)
  moreover have "ds_wf L d" using disk.write_wf [OF assms(1) w] assms(2) by (simp add: safe_def)
  ultimately show ?thesis using assms(2)
    by (intro safe_leave [OF assms(2), of t q _ "(shared s)\<lparr>disk_storage := d\<rparr>"])
       (auto simp: safe_def P query_catch_def loop_true.simps assms(4))
qed

lemma raise_ends: "\<not> answered (RepQuery (fst (query_catch (raise e, h))))"
  by (cases e) (simp_all add: query_catch_def)

lemma step_safe:
  assumes "judy_ok J" and "judy_no_error J" and "leveldb_ok L"
    and st: "step J L s s'" and inv: "safe_inv J L tab0 s"
  shows "safe_inv J L tab0 s'"
proof -
  have mx: "mutex_inv s" using inv by (simp add: safe_inv_def)
  have mx': "mutex_inv s'" by (rule step_mutex [OF st mx])
  have safe: "safe J L tab0 s" if "running s" using inv that by (simp add: safe_inv_def)
  have own: "owner s = Some t" if "in_query (thread s t)" for t
    using mx that by (simp add: mutex_inv_def)
  have sound: "index_sound (srv_view J (shared s)) (promised L s)" if "running s"
    using safe [OF that] by (simp add: safe_def)
  have "safe J L tab0 s'" if r: "running s'"
    using st
  proof (cases rule: step.cases)
    case (lock t q)
    have "promised L s' = promised L s" using lock by (simp add: promised_def)
    then show ?thesis using lock sound
      by (intro safe_quiet [OF safe [OF lock(2)], of s' t "QLocked q"]) simp_all
  next
    case (enter t q)
    then have "owner s = Some t" using own [of t] by simp
    then have "promised L s' = promised L s" using enter by (simp add: promised_def)
    then show ?thesis using enter sound
      by (intro safe_quiet [OF safe [OF enter(2)], of s' t "QLoop q (q_strings q) [] (q_ids Query_new)"])
         (simp_all add: Query_new_def)
  next
    case (short t q)
    then show ?thesis
      using safe_short [OF assms(3) safe [OF short(2)] own [of t] short(3)] by simp
  next
    case (find t q str rest kvs ids ins i c m)
    then show ?thesis
      using safe_find [OF assms(1) safe [OF find(2)] mx find(3,4)] by simp
  next
    case (find_fails t q str rest kvs ids e c m)
    then show ?thesis using r by (simp add: raise_ends)
  next
    case (store t q kvs ids res d)
    show ?thesis
    proof (cases res)
      case (Inl e)
      then show ?thesis using store r by (simp add: raise_ends)
    next
      case (Inr u)
      then show ?thesis
        using store safe_store [OF assms(3) safe [OF store(2)] own [of t] store(3)] by simp
    qed
  next
    case (disable_check t)
    then show ?thesis using sound
      by (intro safe_switch [OF safe [OF disable_check(2)] mx, of t]) auto
  next
    case (unload t)
    have "index_sound (ms_view J (ms_unload J (memory_storage (shared s)))) (promised L s)"
      by (simp add: mem.unload_view [OF assms(1)] index_sound_def)
    then show ?thesis using unload
      by (intro safe_switch [OF safe [OF unload(2)] mx, of t DFlag]) auto
  next
    case (disable_flag t)
    then show ?thesis using sound
      by (intro safe_switch [OF safe [OF disable_flag(2)] mx, of t DDone]) auto
  next
    case (enable_check t junk)
    then show ?thesis using sound
      by (intro safe_switch [OF safe [OF enable_check(2)] mx, of t]) auto
  next
    case (load t junk res m)
    have "ds_wf L (disk_storage (shared s))" "srv_tab L (shared s) \<subseteq>\<^sub>m promised L s"
      using safe [OF load(2)] by (simp_all add: safe_def)
    from load_sound [OF assms(1-3) this sound [OF load(2)] load(4)]
    show ?thesis using load
      by (intro safe_switch [OF safe [OF load(2)] mx, of t]) (auto split: sum.split)
  next
    case (enable_flag t)
    then show ?thesis using sound
      by (intro safe_switch [OF safe [OF enable_flag(2)] mx, of t "EDone (Returned ())"]) auto
  qed
  with mx' show ?thesis by (simp add: safe_inv_def)
qed

lemma serving_safe:
  assumes "server_inv J L h" and "\<forall>t. not_started (ths t)"
  shows "safe_inv J L (srv_tab L h) (serving h ths)"
proof -
  have "\<not> in_query (ths t)" for t using assms(2) [rule_format, of t] by (auto simp: not_started_def)
  with assms(1) service_inv_weak show ?thesis
    using serving_mutex [OF assms(2)]
    by (auto simp: safe_inv_def safe_def server_inv_def serving_def promised_def)
qed

lemma steps_safe:
  assumes "judy_ok J" and "judy_no_error J" and "leveldb_ok L"
  shows "steps J L s s' \<Longrightarrow> safe_inv J L tab0 s \<Longrightarrow> safe_inv J L tab0 s'"
  by (induction rule: steps.induct) (auto dest: step_safe [OF assms])

lemma reached_safe:
  assumes "judy_ok J" and "judy_no_error J" and "leveldb_ok L"
    and "server_inv J L h" and "\<forall>t. not_started (ths t)" and "steps J L (serving h ths) s" and "running s"
  shows "safe J L (srv_tab L h) s"
  using steps_safe [OF assms(1-3,6) serving_safe [OF assms(4,5)]] assms(7) by (simp add: safe_inv_def)

text \<open>A query that was answered when nobody else was there, as a schedule of one thread.\<close>

lemma answered_alone:
  assumes "NumeratorHandler_query J L Query_new q h = (Returned r, h')" and "not_started pc"
  shows "\<exists>s. steps J L (serving h (\<lambda>t. if t = 0 then QStart q else pc)) s \<and> running s \<and>
           shared s = h' \<and> thread s = (\<lambda>t. if t = 0 then QDone q (Returned r) else pc) \<and>
           trace s = [(ReqQuery q, RepQuery (Returned r))]"
proof -
  let ?s0 = "serving h (\<lambda>t. if t = 0 then QStart q else pc)"
  have "thread ?s0 0 = QStart q" "running ?s0" "owner ?s0 = None" "shared ?s0 = h" "trace ?s0 = []"
    by (simp_all add: serving_def)
  from query_runs_alone [OF this(2,3,1), of J L "Returned r" h'] assms(1) this(4,5)
  obtain s where "steps J L ?s0 s" "thread s = (thread ?s0)(0 := QDone q (Returned r))" "shared s = h'"
    "running s" "trace s = [(ReqQuery q, RepQuery (Returned r))]"
    by auto
  moreover have "(thread ?s0)(0 := QDone q (Returned r)) = (\<lambda>t. if t = 0 then QDone q (Returned r) else pc)"
    by (auto simp: serving_def)
  ultimately show ?thesis by auto
qed

section \<open>Properties\<close>




text \<open>A database that is opened again, and the schedule of one query before.\<close>

lemma open_db_reply:
  "NumeratorHandler_query J (open_db d) resp q h = NumeratorHandler_query J alist_db resp q h"
proof -
  have "ds_write (open_db d) = ds_write alist_db" by (simp add: fun_eq_iff ds_write_def split: option.split)
  moreover have "lookup_loop (open_db d) fc e ks i vs fs = lookup_loop alist_db fc e ks i vs fs" for fc e ks i vs fs
    by (induction ks arbitrary: i vs fs) (auto split: prod.splits ldb_status.splits)
  then have "ds_lookup (open_db d) = ds_lookup alist_db"
    by (simp add: fun_eq_iff ds_lookup_def Let_def split: list.split option.split)
  ultimately show ?thesis by (simp add: NumeratorHandler_query_def)
qed

lemma open_db_inv: "server_inv J (open_db d) h = server_inv J alist_db h"
proof -
  have "ds_view (open_db d) = ds_view alist_db" by (simp add: fun_eq_iff ds_view_def split: option.split)
  then show ?thesis by (simp add: server_inv_def ds_wf_def)
qed


end
