(* ===== verification/Thrift_Protocol.thy ===== *)
theory Thrift_Protocol
  imports Query_Types
begin

text \<open>
  The Apache Thrift library, which is not part of the repository: a parameter of the model.
  A value of \<open>'p\<close> is a \<open>TProtocol\<close> with its transport, both directions.  Writing is one
  function of the call that is made (\<open>wcall\<close>); reading has one function per call.  The names
  that \<open>readStructBegin\<close> and \<open>readFieldBegin\<close> store are never used by the generated code, and
  the byte counts that every call returns only add up to results nobody reads, so both are
  left out.  \<open>pending\<close> and \<open>sent\<close> are no operations: they are the calls whose data the input
  still holds and the calls whose data was sent, which the documented contract speaks about.
\<close>

datatype ttype = T_STOP | T_I32 | T_I64 | T_STRING | T_STRUCT | T_LIST | T_OTHER nat

datatype message_type = T_CALL | T_REPLY | T_EXCEPTION | T_ONEWAY

datatype app_exc_type = UNKNOWN | UNKNOWN_METHOD | MISSING_RESULT | OtherAppExc nat

datatype protocol_error = INVALID_DATA | OtherProtocolError nat

text \<open>What a call of the generated code can throw.\<close>

datatype texc =
    TProtocolException protocol_error
  | TTransportException string
  | TApplicationException app_exc_type string
  | Declared numerator_exception

datatype wcall =
    WMessageBegin string message_type "32 word"
  | WMessageEnd
  | WStructBegin string
  | WStructEnd
  | WFieldBegin string ttype "16 word"
  | WFieldEnd
  | WFieldStop
  | WListBegin ttype "32 word"
  | WListEnd
  | WI32 "32 word"
  | WI64 "64 word"
  | WString string
  | WAppExc app_exc_type string   \<comment> \<open>TApplicationException::write\<close>
  | WTransportEnd                 \<comment> \<open>getTransport()->writeEnd()\<close>
  | WFlush                        \<comment> \<open>getTransport()->flush()\<close>

record 'p tprotocol =
  emit :: "wcall \<Rightarrow> 'p \<Rightarrow> texc + 'p"
  readMessageBegin :: "'p \<Rightarrow> texc + (string \<times> message_type \<times> 32 word) \<times> 'p"
  readMessageEnd :: "'p \<Rightarrow> texc + unit \<times> 'p"
  readEnd :: "'p \<Rightarrow> texc + unit \<times> 'p"
  readStructBegin :: "'p \<Rightarrow> texc + unit \<times> 'p"
  readStructEnd :: "'p \<Rightarrow> texc + unit \<times> 'p"
  readFieldBegin :: "'p \<Rightarrow> texc + (ttype \<times> 16 word) \<times> 'p"
  readFieldEnd :: "'p \<Rightarrow> texc + unit \<times> 'p"
  readListBegin :: "'p \<Rightarrow> texc + (ttype \<times> 32 word) \<times> 'p"
  readListEnd :: "'p \<Rightarrow> texc + unit \<times> 'p"
  readI32 :: "'p \<Rightarrow> texc + 32 word \<times> 'p"
  readI64 :: "'p \<Rightarrow> texc + 64 word \<times> 'p"
  readString :: "'p \<Rightarrow> texc + string \<times> 'p"
  readAppExc :: "'p \<Rightarrow> texc + (app_exc_type \<times> string) \<times> 'p"
  skip_type :: "ttype \<Rightarrow> 'p \<Rightarrow> texc + unit \<times> 'p"
  pending :: "'p \<Rightarrow> wcall list"
  sent :: "'p \<Rightarrow> wcall list"

section \<open>Reading as a computation that can throw or not return\<close>

type_synonym ('p, 'a) rd = "'p \<Rightarrow> (texc + 'a \<times> 'p) option"

definition call :: "('p \<Rightarrow> texc + 'a \<times> 'p) \<Rightarrow> ('p, 'a) rd" where
  "call f p = Some (f p)"

definition return :: "'a \<Rightarrow> ('p, 'a) rd" where
  "return a p = Some (Inr (a, p))"

definition throw :: "texc \<Rightarrow> ('p, 'a) rd" where
  "throw e p = Some (Inl e)"

definition bind_rd :: "('p, 'a) rd \<Rightarrow> ('a \<Rightarrow> ('p, 'b) rd) \<Rightarrow> ('p, 'b) rd" where
  "bind_rd m k p =
     (case m p of
        None \<Rightarrow> None
      | Some (Inl e) \<Rightarrow> Some (Inl e)
      | Some (Inr (a, p')) \<Rightarrow> k a p')"

definition then_rd :: "('p, 'a) rd \<Rightarrow> ('p, 'b) rd \<Rightarrow> ('p, 'b) rd" where
  "then_rd m k = bind_rd m (\<lambda>_. k)"

text \<open>A sequence of write calls, up to the first that throws.\<close>

fun emit_all :: "'p tprotocol \<Rightarrow> wcall list \<Rightarrow> 'p \<Rightarrow> texc + 'p" where
  "emit_all P [] p = Inr p"
| "emit_all P (c # cs) p =
     (case emit P c p of Inl e \<Rightarrow> Inl e | Inr p' \<Rightarrow> emit_all P cs p')"

section \<open>Values on the wire\<close>

datatype tval =
    VI32 "32 word"
  | VI64 "64 word"
  | VString string
  | VList ttype "tval list"
  | VStruct string "(string \<times> 16 word \<times> tval) list"

fun vtype :: "tval \<Rightarrow> ttype" where
  "vtype (VI32 _) = T_I32"
| "vtype (VI64 _) = T_I64"
| "vtype (VString _) = T_STRING"
| "vtype (VList _ _) = T_LIST"
| "vtype (VStruct _ _) = T_STRUCT"

lemma size_fields:
  "size_list (\<lambda>(_, _, v). size v) fs \<le> size_list (\<lambda>x. Suc (Suc (size (snd (snd x))))) fs"
  by (induction fs) auto

function toks :: "tval \<Rightarrow> wcall list"
  and list_toks :: "tval list \<Rightarrow> wcall list"
  and field_toks :: "(string \<times> 16 word \<times> tval) list \<Rightarrow> wcall list" where
  "toks (VI32 w) = [WI32 w]"
| "toks (VI64 w) = [WI64 w]"
| "toks (VString s) = [WString s]"
| "toks (VList t vs) = WListBegin t (of_nat (length vs)) # list_toks vs @ [WListEnd]"
| "toks (VStruct n fs) = WStructBegin n # field_toks fs @ [WFieldStop, WStructEnd]"
| "list_toks [] = []"
| "list_toks (v # vs) = toks v @ list_toks vs"
| "field_toks [] = []"
| "field_toks ((n, i, v) # fs) = WFieldBegin n (vtype v) i # toks v @ WFieldEnd # field_toks fs"
  by pat_completeness auto

termination
  by (relation "measure (\<lambda>x. case x of
        Inl v \<Rightarrow> size v
      | Inr (Inl vs) \<Rightarrow> size_list size vs
      | Inr (Inr fs) \<Rightarrow> size_list (\<lambda>(_, _, v). size v) fs)")
     (auto simp: size_prod_simp less_Suc_eq_le size_fields)

lemma field_toks_append [simp]: "field_toks (xs @ ys) = field_toks xs @ field_toks ys"
  by (induction xs) (auto split: prod.splits)

fun vdepth :: "tval \<Rightarrow> nat" where
  "vdepth (VList _ vs) = Suc (fold max (map vdepth vs) 0)"
| "vdepth (VStruct _ fs) = Suc (fold max (map (\<lambda>f. vdepth (snd (snd f))) fs) 0)"
| "vdepth _ = 0"

section \<open>The contract\<close>

text \<open>Ending and flushing the transport send what was written; they add no data.\<close>

fun wire :: "wcall \<Rightarrow> wcall list" where
  "wire WTransportEnd = []"
| "wire WFlush = []"
| "wire c = [c]"

text \<open>\<open>takes P f ts a\<close>: where the data of the calls \<open>ts\<close> comes next, \<open>f\<close> reads it as \<open>a\<close>.\<close>

definition takes :: "'p tprotocol \<Rightarrow> ('p \<Rightarrow> texc + 'a \<times> 'p) \<Rightarrow> wcall list \<Rightarrow> 'a \<Rightarrow> bool" where
  "takes P f ts a \<longleftrightarrow>
     (\<forall>p r. pending P p = ts @ r \<longrightarrow>
        (\<exists>p'. f p = Inr (a, p') \<and> pending P p' = r \<and> sent P p' = sent P p))"

text \<open>
  The documented behaviour: a write that does not throw sends its data, and every read gives
  back what the matching write was given.  \<open>skip\<close> passes over any value (nested far less deep
  than the recursion limit of the library, which is 64).
\<close>

definition skip_depth :: nat where "skip_depth = 32"

definition protocol_ok :: "'p tprotocol \<Rightarrow> bool" where
  "protocol_ok P \<longleftrightarrow>
     (\<forall>c p p'. emit P c p = Inr p' \<longrightarrow> sent P p' = sent P p @ wire c \<and> pending P p' = pending P p) \<and>
     (\<forall>n t i. takes P (readMessageBegin P) [WMessageBegin n t i] (n, t, i)) \<and>
     takes P (readMessageEnd P) [WMessageEnd] () \<and>
     takes P (readEnd P) [] () \<and>
     (\<forall>n. takes P (readStructBegin P) [WStructBegin n] ()) \<and>
     takes P (readStructEnd P) [WStructEnd] () \<and>
     (\<forall>n t i. t \<noteq> T_STOP \<longrightarrow> takes P (readFieldBegin P) [WFieldBegin n t i] (t, i)) \<and>
     (\<exists>i. takes P (readFieldBegin P) [WFieldStop] (T_STOP, i)) \<and>
     takes P (readFieldEnd P) [WFieldEnd] () \<and>
     (\<forall>t n. takes P (readListBegin P) [WListBegin t n] (t, n)) \<and>
     takes P (readListEnd P) [WListEnd] () \<and>
     (\<forall>w. takes P (readI32 P) [WI32 w] w) \<and>
     (\<forall>w. takes P (readI64 P) [WI64 w] w) \<and>
     (\<forall>s. takes P (readString P) [WString s] s) \<and>
     (\<forall>t s. takes P (readAppExc P) [WAppExc t s] (t, s)) \<and>
     (\<forall>v. vdepth v \<le> skip_depth \<longrightarrow> takes P (skip_type P (vtype v)) (toks v) ())"

text \<open>No write throws: the connection is up.\<close>

definition protocol_no_error :: "'p tprotocol \<Rightarrow> bool" where
  "protocol_no_error P \<longleftrightarrow> (\<forall>c p. \<exists>p'. emit P c p = Inr p')"

lemma emit_all_sent:
  assumes "protocol_ok P" and "emit_all P cs p = Inr p'"
  shows "sent P p' = sent P p @ concat (map wire cs) \<and> pending P p' = pending P p"
  using assms(2)
proof (induction cs arbitrary: p)
  case Nil
  then show ?case by simp
next
  case (Cons c cs)
  then obtain p1 where p1: "emit P c p = Inr p1" "emit_all P cs p1 = Inr p'"
    by (auto split: sum.splits)
  with Cons.IH [OF p1(2)] assms(1) show ?case by (simp add: protocol_ok_def)
qed

lemma emit_all_returns: "protocol_no_error P \<Longrightarrow> \<exists>p'. emit_all P cs p = Inr p'"
proof (induction cs arbitrary: p)
  case (Cons c cs)
  then obtain p1 where "emit P c p = Inr p1" unfolding protocol_no_error_def by blast
  with Cons show ?case by simp
qed simp

lemma emit_all_append:
  "emit_all P (xs @ ys) p = (case emit_all P xs p of Inl e \<Rightarrow> Inl e | Inr p' \<Rightarrow> emit_all P ys p')"
  by (induction xs arbitrary: p) (auto split: sum.splits)

section \<open>Reading what was written\<close>

text \<open>\<open>takes\<close> for computations, and the rules that follow their structure.\<close>

definition reads :: "'p tprotocol \<Rightarrow> ('p, 'a) rd \<Rightarrow> wcall list \<Rightarrow> 'a \<Rightarrow> bool" where
  "reads P m ts a \<longleftrightarrow>
     (\<forall>p r. pending P p = ts @ r \<longrightarrow>
        (\<exists>p'. m p = Some (Inr (a, p')) \<and> pending P p' = r \<and> sent P p' = sent P p))"

lemma reads_call: "takes P f ts a \<Longrightarrow> reads P (call f) ts a"
  unfolding reads_def takes_def call_def by blast

lemma reads_return: "reads P (return a) [] a"
  by (simp add: reads_def return_def)

lemma reads_bind:
  assumes "reads P m xs a" and "reads P (k a) ys b"
  shows "reads P (bind_rd m k) (xs @ ys) b"
  unfolding reads_def
proof (intro allI impI)
  fix p r
  assume "pending P p = (xs @ ys) @ r"
  then obtain p1 where p1: "m p = Some (Inr (a, p1))" "pending P p1 = ys @ r" "sent P p1 = sent P p"
    using assms(1) unfolding reads_def by (metis append.assoc)
  with assms(2) obtain p2 where "k a p1 = Some (Inr (b, p2))" "pending P p2 = r" "sent P p2 = sent P p"
    unfolding reads_def by metis
  with p1(1) show "\<exists>p'. bind_rd m k p = Some (Inr (b, p')) \<and> pending P p' = r \<and> sent P p' = sent P p"
    by (simp add: bind_rd_def)
qed

lemma reads_bind_cons:
  "reads P m [c] a \<Longrightarrow> reads P (k a) ys b \<Longrightarrow> reads P (bind_rd m k) (c # ys) b"
  using reads_bind [of P m "[c]"] by simp

lemma reads_bind_none:
  "reads P m [] a \<Longrightarrow> reads P (k a) ys b \<Longrightarrow> reads P (bind_rd m k) ys b"
  using reads_bind [of P m "[]"] by simp

lemma reads_then: "reads P m xs a \<Longrightarrow> reads P k ys b \<Longrightarrow> reads P (then_rd m k) (xs @ ys) b"
  unfolding then_rd_def by (rule reads_bind)

lemma reads_then_cons: "reads P m [c] a \<Longrightarrow> reads P k ys b \<Longrightarrow> reads P (then_rd m k) (c # ys) b"
  unfolding then_rd_def by (rule reads_bind_cons)

lemma reads_then_none: "reads P m [] a \<Longrightarrow> reads P k ys b \<Longrightarrow> reads P (then_rd m k) ys b"
  unfolding then_rd_def by (rule reads_bind_none)

lemma protocol_takes:
  assumes "protocol_ok P"
  shows "takes P (readMessageBegin P) [WMessageBegin n t i] (n, t, i)"
    and "takes P (readMessageEnd P) [WMessageEnd] ()"
    and "takes P (readEnd P) [] ()"
    and "takes P (readStructBegin P) [WStructBegin n] ()"
    and "takes P (readStructEnd P) [WStructEnd] ()"
    and "ft \<noteq> T_STOP \<Longrightarrow> takes P (readFieldBegin P) [WFieldBegin n ft fi] (ft, fi)"
    and "takes P (readFieldEnd P) [WFieldEnd] ()"
    and "takes P (readListBegin P) [WListBegin lt ln] (lt, ln)"
    and "takes P (readListEnd P) [WListEnd] ()"
    and "takes P (readI32 P) [WI32 w32] w32"
    and "takes P (readI64 P) [WI64 w64] w64"
    and "takes P (readString P) [WString n] n"
    and "takes P (readAppExc P) [WAppExc at n] (at, n)"
    and "vdepth v \<le> skip_depth \<Longrightarrow> takes P (skip_type P (vtype v)) (toks v) ()"
  using assms by (simp_all add: protocol_ok_def)

lemmas protocol_reads = protocol_takes [THEN reads_call]

section \<open>A concrete protocol, for the witnesses\<close>

text \<open>
  A protocol that transmits the calls themselves: the first component is the input, the second
  the output.  A read of something else than what comes next throws.
\<close>

type_synonym tape = "wcall list \<times> wcall list"

definition take_tok :: "(wcall \<Rightarrow> 'a option) \<Rightarrow> tape \<Rightarrow> texc + 'a \<times> tape" where
  "take_tok f p =
     (case fst p of
        [] \<Rightarrow> Inl (TTransportException ''no more data'')
      | c # cs \<Rightarrow> (case f c of None \<Rightarrow> Inl (TProtocolException INVALID_DATA)
                             | Some a \<Rightarrow> Inr (a, (cs, snd p))))"

fun drop_nested :: "nat \<Rightarrow> wcall list \<Rightarrow> wcall list" where
  "drop_nested 0 cs = cs"
| "drop_nested (Suc n) [] = []"
| "drop_nested (Suc n) (c # cs) =
     (case c of
        WStructBegin _ \<Rightarrow> drop_nested (Suc (Suc n)) cs
      | WListBegin _ _ \<Rightarrow> drop_nested (Suc (Suc n)) cs
      | WStructEnd \<Rightarrow> drop_nested n cs
      | WListEnd \<Rightarrow> drop_nested n cs
      | _ \<Rightarrow> drop_nested (Suc n) cs)"

definition skip_toks :: "ttype \<Rightarrow> wcall list \<Rightarrow> wcall list" where
  "skip_toks t cs = (if t = T_STRUCT \<or> t = T_LIST then drop_nested 1 (tl cs) else tl cs)"

definition tape_protocol :: "tape tprotocol" where
  "tape_protocol =
     \<lparr>emit = (\<lambda>c p. Inr (fst p, snd p @ wire c)),
      readMessageBegin = take_tok (\<lambda>c. case c of WMessageBegin n t i \<Rightarrow> Some (n, t, i) | _ \<Rightarrow> None),
      readMessageEnd = take_tok (\<lambda>c. case c of WMessageEnd \<Rightarrow> Some () | _ \<Rightarrow> None),
      readEnd = (\<lambda>p. Inr ((), p)),
      readStructBegin = take_tok (\<lambda>c. case c of WStructBegin n \<Rightarrow> Some () | _ \<Rightarrow> None),
      readStructEnd = take_tok (\<lambda>c. case c of WStructEnd \<Rightarrow> Some () | _ \<Rightarrow> None),
      readFieldBegin = take_tok (\<lambda>c. case c of WFieldBegin n t i \<Rightarrow> Some (t, i)
                                             | WFieldStop \<Rightarrow> Some (T_STOP, 0) | _ \<Rightarrow> None),
      readFieldEnd = take_tok (\<lambda>c. case c of WFieldEnd \<Rightarrow> Some () | _ \<Rightarrow> None),
      readListBegin = take_tok (\<lambda>c. case c of WListBegin t n \<Rightarrow> Some (t, n) | _ \<Rightarrow> None),
      readListEnd = take_tok (\<lambda>c. case c of WListEnd \<Rightarrow> Some () | _ \<Rightarrow> None),
      readI32 = take_tok (\<lambda>c. case c of WI32 w \<Rightarrow> Some w | _ \<Rightarrow> None),
      readI64 = take_tok (\<lambda>c. case c of WI64 w \<Rightarrow> Some w | _ \<Rightarrow> None),
      readString = take_tok (\<lambda>c. case c of WString s \<Rightarrow> Some s | _ \<Rightarrow> None),
      readAppExc = take_tok (\<lambda>c. case c of WAppExc t s \<Rightarrow> Some (t, s) | _ \<Rightarrow> None),
      skip_type = (\<lambda>t p. Inr ((), (skip_toks t (fst p), snd p))),
      pending = fst,
      sent = snd\<rparr>"

lemma drop_nested_toks:
  "drop_nested (Suc n) (toks v @ r) = drop_nested (Suc n) r"
  "drop_nested (Suc n) (list_toks vs @ r) = drop_nested (Suc n) r"
  "drop_nested (Suc n) (field_toks fs @ r) = drop_nested (Suc n) r"
  by (induction v and vs and fs arbitrary: n r and n r and n r rule: toks_list_toks_field_toks.induct)
     simp_all

lemma skip_toks_toks: "skip_toks (vtype v) (toks v @ r) = r"
  by (cases v) (simp_all add: skip_toks_def drop_nested_toks)

lemma tape_protocol_ok [simp]: "protocol_ok tape_protocol"
  by (auto simp: protocol_ok_def tape_protocol_def takes_def take_tok_def skip_toks_toks)

lemma tape_protocol_no_error [simp]: "protocol_no_error tape_protocol"
  by (simp add: protocol_no_error_def tape_protocol_def)

end
