(* ===== verification/Thrift_Types.thy ===== *)
theory Thrift_Types
  imports Thrift_Protocol
begin

text \<open>
  gen-cpp/numerator\_types.cpp: how a \<open>Query\<close> and a \<open>NumeratorException\<close> are written to and
  read from a protocol.  A generated \<open>write\<close> makes the same calls whatever they return, so it
  is modelled as the list of them.  Every generated \<open>read\<close> is the same loop around its own
  \<open>switch\<close>: \<open>read_fields\<close> is the loop, which need not end on arbitrary input, and the
  functions named \<open>..._field\<close> are the switches.
\<close>

section \<open>The loop of the generated readers\<close>

partial_function (option) read_fields ::
  "'p tprotocol \<Rightarrow> (ttype \<Rightarrow> 16 word \<Rightarrow> 's \<Rightarrow> ('p, 's) rd) \<Rightarrow> 's \<Rightarrow> ('p, 's) rd" where
  "read_fields P field s p =
     (case readFieldBegin P p of
        Inl e \<Rightarrow> Some (Inl e)
      | Inr ((ftype, fid), p1) \<Rightarrow>
          if ftype = T_STOP then Some (Inr (s, p1))
          else
            (case field ftype fid s p1 of
               None \<Rightarrow> None
             | Some (Inl e) \<Rightarrow> Some (Inl e)
             | Some (Inr (s', p2)) \<Rightarrow>
                 (case readFieldEnd P p2 of
                    Inl e \<Rightarrow> Some (Inl e)
                  | Inr (_, p3) \<Rightarrow> read_fields P field s' p3)))"

definition read_struct ::
  "'p tprotocol \<Rightarrow> (ttype \<Rightarrow> 16 word \<Rightarrow> 's \<Rightarrow> ('p, 's) rd) \<Rightarrow> 's \<Rightarrow> ('p, 's) rd" where
  "read_struct P field s =
     then_rd (call (readStructBegin P))
       (bind_rd (read_fields P field s)
         (\<lambda>s'. then_rd (call (readStructEnd P)) (return s')))"

definition skip_field :: "'p tprotocol \<Rightarrow> ttype \<Rightarrow> 's \<Rightarrow> ('p, 's) rd" where
  "skip_field P ftype s = then_rd (call (skip_type P ftype)) (return s)"

text \<open>A container: \<open>resize\<close> to the announced size and one read per element.\<close>

primrec read_elems :: "('p \<Rightarrow> texc + 'a \<times> 'p) \<Rightarrow> nat \<Rightarrow> ('p, 'a list) rd" where
  "read_elems f 0 = return []"
| "read_elems f (Suc n) = bind_rd (call f) (\<lambda>x. bind_rd (read_elems f n) (\<lambda>xs. return (x # xs)))"

definition read_list :: "'p tprotocol \<Rightarrow> ('p \<Rightarrow> texc + 'a \<times> 'p) \<Rightarrow> ('p, 'a list) rd" where
  "read_list P f =
     bind_rd (call (readListBegin P))
       (\<lambda>(etype, size). bind_rd (read_elems f (unat size))
         (\<lambda>xs. then_rd (call (readListEnd P)) (return xs)))"

section \<open>Query\<close>

definition Query_field :: "'p tprotocol \<Rightarrow> ttype \<Rightarrow> 16 word \<Rightarrow> query \<times> bool \<Rightarrow> ('p, query \<times> bool) rd" where
  "Query_field P ftype fid s =
     (case s of (q, isset_op) \<Rightarrow>
        if fid = 1 then
          (if ftype = T_I32
           then bind_rd (call (readI32 P)) (\<lambda>ecast. return (q\<lparr>q_op := ecast\<rparr>, True))
           else skip_field P ftype s)
        else if fid = 2 then
          (if ftype = T_LIST
           then bind_rd (read_list P (readString P))
                  (\<lambda>xs. return (q\<lparr>q_strings := xs, q_isset := (q_isset q)\<lparr>isset_strings := True\<rparr>\<rparr>, isset_op))
           else skip_field P ftype s)
        else if fid = 3 then
          (if ftype = T_LIST
           then bind_rd (read_list P (readI64 P))
                  (\<lambda>xs. return (q\<lparr>q_ids := xs, q_isset := (q_isset q)\<lparr>isset_ids := True\<rparr>\<rparr>, isset_op))
           else skip_field P ftype s)
        else if fid = 4 then
          (if ftype = T_LIST
           then bind_rd (read_list P (readI32 P))
                  (\<lambda>xs. return (q\<lparr>q_failures := xs, q_isset := (q_isset q)\<lparr>isset_failures := True\<rparr>\<rparr>, isset_op))
           else skip_field P ftype s)
        else skip_field P ftype s)"

definition Query_read :: "'p tprotocol \<Rightarrow> query \<Rightarrow> ('p, query) rd" where
  "Query_read P q =
     bind_rd (read_struct P (Query_field P) (q, False))
       (\<lambda>(q', isset_op). if \<not> isset_op then throw (TProtocolException INVALID_DATA) else return q')"

definition Query_write :: "query \<Rightarrow> wcall list" where
  "Query_write q =
     [WStructBegin ''Query'',
      WFieldBegin ''op'' T_I32 1, WI32 (q_op q), WFieldEnd,
      WFieldBegin ''strings'' T_LIST 2, WListBegin T_STRING (of_nat (length (q_strings q)))] @
     map WString (q_strings q) @
     [WListEnd, WFieldEnd,
      WFieldBegin ''ids'' T_LIST 3, WListBegin T_I64 (of_nat (length (q_ids q)))] @
     map WI64 (q_ids q) @
     [WListEnd, WFieldEnd,
      WFieldBegin ''failures'' T_LIST 4, WListBegin T_I32 (of_nat (length (q_failures q)))] @
     map WI32 (q_failures q) @
     [WListEnd, WFieldEnd, WFieldStop, WStructEnd]"

section \<open>NumeratorException\<close>

definition NumeratorException_field ::
  "'p tprotocol \<Rightarrow> ttype \<Rightarrow> 16 word \<Rightarrow> numerator_exception \<times> bool \<Rightarrow> ('p, numerator_exception \<times> bool) rd" where
  "NumeratorException_field P ftype fid s =
     (case s of (x, isset_code) \<Rightarrow>
        if fid = 1 then
          (if ftype = T_I32
           then bind_rd (call (readI32 P)) (\<lambda>ecast. return (x\<lparr>ne_code := ecast\<rparr>, True))
           else skip_field P ftype s)
        else if fid = 2 then
          (if ftype = T_STRING
           then bind_rd (call (readString P))
                  (\<lambda>m. return (x\<lparr>ne_message := m, ne_isset_message := True\<rparr>, isset_code))
           else skip_field P ftype s)
        else skip_field P ftype s)"

definition NumeratorException_read :: "'p tprotocol \<Rightarrow> numerator_exception \<Rightarrow> ('p, numerator_exception) rd" where
  "NumeratorException_read P x =
     bind_rd (read_struct P (NumeratorException_field P) (x, False))
       (\<lambda>(x', isset_code). if \<not> isset_code then throw (TProtocolException INVALID_DATA) else return x')"

definition NumeratorException_write :: "numerator_exception \<Rightarrow> wcall list" where
  "NumeratorException_write x =
     [WStructBegin ''NumeratorException'',
      WFieldBegin ''code'' T_I32 1, WI32 (ne_code x), WFieldEnd,
      WFieldBegin ''message'' T_STRING 2, WString (ne_message x), WFieldEnd,
      WFieldStop, WStructEnd]"

section \<open>What the readers do with well-formed data\<close>

lemma vtype_not_stop [simp]: "vtype v \<noteq> T_STOP"
  by (cases v) simp_all

lemma read_fields_alt:
  "read_fields P field s =
     bind_rd (call (readFieldBegin P))
       (\<lambda>(ftype, fid). if ftype = T_STOP then return s
          else bind_rd (field ftype fid s)
                 (\<lambda>s'. then_rd (call (readFieldEnd P)) (read_fields P field s')))"
  by (rule ext, subst read_fields.simps)
     (simp add: bind_rd_def then_rd_def call_def return_def split_def split: sum.split option.split)

lemma reads_fields_stop:
  assumes "protocol_ok P"
  shows "reads P (read_fields P field s) [WFieldStop] s"
proof -
  obtain i where "takes P (readFieldBegin P) [WFieldStop] (T_STOP, i)"
    using assms by (auto simp: protocol_ok_def)
  note stop = reads_call [OF this]
  have "reads P (return s) [] s" by (rule reads_return)
  then show ?thesis
    by (subst read_fields_alt, intro reads_bind_cons [OF stop]) simp
qed

lemma reads_fields_cons:
  assumes "protocol_ok P" and "reads P (field (vtype v) i s) (toks v) s1"
    and "reads P (read_fields P field s1) ts s2"
  shows "reads P (read_fields P field s) (WFieldBegin n (vtype v) i # toks v @ WFieldEnd # ts) s2"
proof -
  have "reads P (then_rd (call (readFieldEnd P)) (read_fields P field s1)) (WFieldEnd # ts) s2"
    by (rule reads_then_cons [OF protocol_reads(7) [OF assms(1)] assms(3)])
  with assms(2) have rest: "reads P (bind_rd (field (vtype v) i s)
      (\<lambda>s'. then_rd (call (readFieldEnd P)) (read_fields P field s'))) (toks v @ WFieldEnd # ts) s2"
    by (rule reads_bind)
  show ?thesis
    by (subst read_fields_alt, rule reads_bind_cons [OF protocol_reads(6) [OF assms(1) vtype_not_stop]])
       (simp add: rest)
qed

text \<open>The loop applies the switch to the fields one after the other.\<close>

lemma reads_fields:
  assumes "protocol_ok P"
    and "\<And>n i v s. (n, i, v) \<in> set fs \<Longrightarrow> reads P (field (vtype v) i s) (toks v) (upd (n, i, v) s)"
  shows "reads P (read_fields P field s) (field_toks fs @ [WFieldStop]) (fold upd fs s)"
  using assms(2)
proof (induction fs arbitrary: s)
  case Nil
  then show ?case by (simp add: reads_fields_stop [OF assms(1)])
next
  case (Cons f fs)
  obtain n i v where f: "f = (n, i, v)" by (cases f)
  have "reads P (field (vtype v) i s) (toks v) (upd f s)" using Cons.prems f by simp
  from reads_fields_cons [OF assms(1) this Cons.IH] Cons.prems
  show ?case by (simp add: f)
qed

lemma reads_struct:
  assumes "protocol_ok P"
    and "\<And>n i v s. (n, i, v) \<in> set fs \<Longrightarrow> reads P (field (vtype v) i s) (toks v) (upd (n, i, v) s)"
  shows "reads P (read_struct P field s) (toks (VStruct m fs)) (fold upd fs s)"
proof -
  have "reads P (bind_rd (read_fields P field s) (\<lambda>s'. then_rd (call (readStructEnd P)) (return s')))
      ((field_toks fs @ [WFieldStop]) @ [WStructEnd] @ []) (fold upd fs s)"
    by (rule reads_bind [OF reads_fields reads_then [OF protocol_reads(5) reads_return]])
       (use assms in simp_all)
  with reads_then_cons [OF protocol_reads(4) [OF assms(1)]] show ?thesis
    by (simp add: read_struct_def)
qed

lemma reads_skip_field:
  "protocol_ok P \<Longrightarrow> vdepth v \<le> skip_depth \<Longrightarrow> reads P (skip_field P (vtype v) s) (toks v) s"
  unfolding skip_field_def
  using reads_then [OF protocol_reads(14) reads_return] by fastforce

lemma reads_elems:
  assumes "\<And>x. reads P (call f) [g x] x"
  shows "reads P (read_elems f (length xs)) (map g xs) xs"
proof (induction xs)
  case Nil
  show ?case by (simp add: reads_return)
next
  case (Cons x xs)
  have "reads P (bind_rd (read_elems f (length xs)) (\<lambda>ys. return (x # ys))) (map g xs @ []) (x # xs)"
    by (rule reads_bind [OF Cons reads_return])
  then show ?case by (simp add: reads_bind_cons [OF assms])
qed

lemma reads_list:
  assumes "protocol_ok P" and "\<And>x. reads P (call f) [g x] x" and "length xs < 2 ^ 32"
  shows "reads P (read_list P f) (WListBegin t (of_nat (length xs)) # map g xs @ [WListEnd]) xs"
proof -
  have n: "unat (of_nat (length xs) :: 32 word) = length xs"
    using assms(3) by (simp add: unsigned_of_nat take_bit_nat_eq_self)
  have "reads P (bind_rd (read_elems f (length xs)) (\<lambda>ys. then_rd (call (readListEnd P)) (return ys)))
      (map g xs @ [WListEnd] @ []) xs"
    by (rule reads_bind [OF reads_elems [OF assms(2)] reads_then [OF protocol_reads(9) reads_return]])
       (rule assms(1))
  then show ?thesis
    unfolding read_list_def by (intro reads_bind_cons [OF protocol_reads(8) [OF assms(1)]]) (simp add: n)
qed

section \<open>The meaning of the fields of a Query\<close>

text \<open>The effect of one field, for data of the right element types.\<close>

fun the_string :: "tval \<Rightarrow> string" where
  "the_string (VString s) = s" | "the_string _ = []"

fun the_i64 :: "tval \<Rightarrow> 64 word" where
  "the_i64 (VI64 w) = w" | "the_i64 _ = 0"

fun the_i32 :: "tval \<Rightarrow> 32 word" where
  "the_i32 (VI32 w) = w" | "the_i32 _ = 0"

definition list_of :: "(tval \<Rightarrow> 'a) \<Rightarrow> tval \<Rightarrow> 'a list" where
  "list_of f v = (case v of VList _ vs \<Rightarrow> map f vs | _ \<Rightarrow> [])"

definition query_apply :: "string \<times> 16 word \<times> tval \<Rightarrow> query \<times> bool \<Rightarrow> query \<times> bool" where
  "query_apply f s =
     (case f of (n, i, v) \<Rightarrow> case s of (q, b) \<Rightarrow>
        if i = 1 \<and> vtype v = T_I32 then (q\<lparr>q_op := the_i32 v\<rparr>, True)
        else if i = 2 \<and> vtype v = T_LIST
        then (q\<lparr>q_strings := list_of the_string v, q_isset := (q_isset q)\<lparr>isset_strings := True\<rparr>\<rparr>, b)
        else if i = 3 \<and> vtype v = T_LIST
        then (q\<lparr>q_ids := list_of the_i64 v, q_isset := (q_isset q)\<lparr>isset_ids := True\<rparr>\<rparr>, b)
        else if i = 4 \<and> vtype v = T_LIST
        then (q\<lparr>q_failures := list_of the_i32 v, q_isset := (q_isset q)\<lparr>isset_failures := True\<rparr>\<rparr>, b)
        else (q, b))"

definition known_query_field :: "string \<times> 16 word \<times> tval \<Rightarrow> bool" where
  "known_query_field f \<longleftrightarrow>
     (case f of (n, i, v) \<Rightarrow> i = 1 \<and> vtype v = T_I32 \<or> i \<in> {2, 3, 4} \<and> vtype v = T_LIST)"

text \<open>A list whose elements all have the type that the field is declared with.\<close>

definition list_ok :: "(tval \<Rightarrow> bool) \<Rightarrow> tval \<Rightarrow> bool" where
  "list_ok P v = (case v of VList t vs \<Rightarrow> list_all P vs \<and> length vs < 2 ^ 32 | _ \<Rightarrow> False)"

definition query_field_ok :: "string \<times> 16 word \<times> tval \<Rightarrow> bool" where
  "query_field_ok f =
     (case f of (n, i, v) \<Rightarrow>
        if i = 2 \<and> vtype v = T_LIST then list_ok (\<lambda>x. vtype x = T_STRING) v
        else if i = 3 \<and> vtype v = T_LIST then list_ok (\<lambda>x. vtype x = T_I64) v
        else if i = 4 \<and> vtype v = T_LIST then list_ok (\<lambda>x. vtype x = T_I32) v
        else vdepth v \<le> skip_depth)"

lemma vtype_list_all:
  "list_all (\<lambda>x. vtype x = T_STRING) vs \<Longrightarrow> list_toks vs = map WString (map the_string vs)"
  "list_all (\<lambda>x. vtype x = T_I64) vs \<Longrightarrow> list_toks vs = map WI64 (map the_i64 vs)"
  "list_all (\<lambda>x. vtype x = T_I32) vs \<Longrightarrow> list_toks vs = map WI32 (map the_i32 vs)"
proof -
  have one: "vtype x = T_STRING \<Longrightarrow> toks x = [WString (the_string x)]"
    "vtype x = T_I64 \<Longrightarrow> toks x = [WI64 (the_i64 x)]"
    "vtype x = T_I32 \<Longrightarrow> toks x = [WI32 (the_i32 x)]" for x
    by (cases x; simp)+
  show "list_all (\<lambda>x. vtype x = T_STRING) vs \<Longrightarrow> list_toks vs = map WString (map the_string vs)"
    "list_all (\<lambda>x. vtype x = T_I64) vs \<Longrightarrow> list_toks vs = map WI64 (map the_i64 vs)"
    "list_all (\<lambda>x. vtype x = T_I32) vs \<Longrightarrow> list_toks vs = map WI32 (map the_i32 vs)"
    by (induction vs) (simp_all add: one)
qed

lemma reads_map: "reads P m ts a \<Longrightarrow> reads P (bind_rd m (\<lambda>x. return (f x))) ts (f a)"
  using reads_bind [where k = "\<lambda>x. return (f x)" and ys = "[]"] reads_return by fastforce

lemma reads_typed_list:
  assumes "protocol_ok P" and "list_ok Q v" and "\<And>x. reads P (call f) [g x] x"
    and "\<And>vs. list_all Q vs \<Longrightarrow> list_toks vs = map g (map h vs)"
  shows "reads P (bind_rd (read_list P f) (\<lambda>xs. return (k xs))) (toks v) (k (list_of h v))"
proof -
  obtain t vs where v: "v = VList t vs" "list_all Q vs" "length vs < 2 ^ 32"
    using assms(2) by (auto simp: list_ok_def split: tval.splits)
  have "reads P (read_list P f) (WListBegin t (of_nat (length (map h vs))) # map g (map h vs) @ [WListEnd]) (map h vs)"
    by (rule reads_list [OF assms(1,3)]) (use v(3) in simp)
  then have "reads P (read_list P f) (toks v) (list_of h v)"
    using v assms(4) [OF v(2)] by (simp add: list_of_def)
  then show ?thesis by (rule reads_map)
qed

lemma reads_Query_field:
  assumes "protocol_ok P" and "query_field_ok (n, i, v)"
  shows "reads P (Query_field P (vtype v) i s) (toks v) (query_apply (n, i, v) s)"
proof -
  obtain q b where s: "s = (q, b)" by fastforce
  note lists = reads_typed_list [OF assms(1)]
  consider "i = 1" "vtype v = T_I32" | "i = 2" "vtype v = T_LIST" | "i = 3" "vtype v = T_LIST"
    | "i = 4" "vtype v = T_LIST" | "\<not> known_query_field (n, i, v)"
    by (auto simp: known_query_field_def)
  then show ?thesis
  proof cases
    case 1
    then obtain w where v: "v = VI32 w" by (cases v) simp_all
    show ?thesis
      using reads_map [OF protocol_reads(10) [OF assms(1)], of "\<lambda>w. (q\<lparr>q_op := w\<rparr>, True)" w] 1
      by (simp add: s v Query_field_def query_apply_def)
  next
    case 2
    with assms(2) have "list_ok (\<lambda>x. vtype x = T_STRING) v" by (simp add: query_field_ok_def)
    from lists [OF this protocol_reads(12) [OF assms(1)] vtype_list_all(1)] 2
    show ?thesis by (simp add: s Query_field_def query_apply_def)
  next
    case 3
    with assms(2) have "list_ok (\<lambda>x. vtype x = T_I64) v" by (simp add: query_field_ok_def)
    from lists [OF this protocol_reads(11) [OF assms(1)] vtype_list_all(2)] 3
    show ?thesis by (simp add: s Query_field_def query_apply_def)
  next
    case 4
    with assms(2) have "list_ok (\<lambda>x. vtype x = T_I32) v" by (simp add: query_field_ok_def)
    from lists [OF this protocol_reads(10) [OF assms(1)] vtype_list_all(3)] 4
    show ?thesis by (simp add: s Query_field_def query_apply_def)
  next
    case 5
    then have "vdepth v \<le> skip_depth"
      using assms(2) by (auto simp: query_field_ok_def known_query_field_def split: if_splits)
    from reads_skip_field [OF assms(1) this, of s] 5 show ?thesis
      by (auto simp: s Query_field_def query_apply_def known_query_field_def)
  qed
qed

lemma reads_Query_fields:
  assumes "protocol_ok P" and "\<forall>f \<in> set fs. query_field_ok f"
  shows "reads P (read_struct P (Query_field P) s) (toks (VStruct m fs)) (fold query_apply fs s)"
  by (rule reads_struct [OF assms(1) reads_Query_field [OF assms(1)]]) (use assms(2) in blast)

section \<open>The meaning of the fields of a NumeratorException\<close>

definition exception_apply ::
  "string \<times> 16 word \<times> tval \<Rightarrow> numerator_exception \<times> bool \<Rightarrow> numerator_exception \<times> bool" where
  "exception_apply f s =
     (case f of (n, i, v) \<Rightarrow> case s of (x, b) \<Rightarrow>
        if i = 1 \<and> vtype v = T_I32 then (x\<lparr>ne_code := the_i32 v\<rparr>, True)
        else if i = 2 \<and> vtype v = T_STRING
        then (x\<lparr>ne_message := the_string v, ne_isset_message := True\<rparr>, b)
        else (x, b))"

lemma reads_NumeratorException_field:
  assumes "protocol_ok P" and "vdepth v \<le> skip_depth"
  shows "reads P (NumeratorException_field P (vtype v) i s) (toks v) (exception_apply (n, i, v) s)"
proof -
  obtain x b where s: "s = (x, b)" by fastforce
  consider "i = 1" "vtype v = T_I32" | "i = 2" "vtype v = T_STRING"
    | "\<not> (i = 1 \<and> vtype v = T_I32)" "\<not> (i = 2 \<and> vtype v = T_STRING)"
    by blast
  then show ?thesis
  proof cases
    case 1
    then obtain w where v: "v = VI32 w" by (cases v) simp_all
    show ?thesis
      using reads_map [OF protocol_reads(10) [OF assms(1)], of "\<lambda>w. (x\<lparr>ne_code := w\<rparr>, True)" w] 1
      by (simp add: s v NumeratorException_field_def exception_apply_def)
  next
    case 2
    then obtain m where v: "v = VString m" by (cases v) simp_all
    show ?thesis
      using reads_map [OF protocol_reads(12) [OF assms(1)],
          of "\<lambda>m. (x\<lparr>ne_message := m, ne_isset_message := True\<rparr>, b)" m] 2
      by (simp add: s v NumeratorException_field_def exception_apply_def)
  next
    case 3
    with reads_skip_field [OF assms, of s] show ?thesis
      by (simp add: s NumeratorException_field_def exception_apply_def)
  qed
qed

lemma reads_NumeratorException_fields:
  assumes "protocol_ok P" and "\<forall>(n, i, v) \<in> set fs. vdepth v \<le> skip_depth"
  shows "reads P (read_struct P (NumeratorException_field P) s) (toks (VStruct m fs)) (fold exception_apply fs s)"
  by (rule reads_struct [OF assms(1) reads_NumeratorException_field [OF assms(1)]]) (use assms(2) in blast)

section \<open>Written values\<close>

definition query_value :: "query \<Rightarrow> tval" where
  "query_value q = VStruct ''Query''
     [(''op'', 1, VI32 (q_op q)),
      (''strings'', 2, VList T_STRING (map VString (q_strings q))),
      (''ids'', 3, VList T_I64 (map VI64 (q_ids q))),
      (''failures'', 4, VList T_I32 (map VI32 (q_failures q)))]"

definition exception_value :: "numerator_exception \<Rightarrow> tval" where
  "exception_value x = VStruct ''NumeratorException''
     [(''code'', 1, VI32 (ne_code x)), (''message'', 2, VString (ne_message x))]"

lemma list_toks_map [simp]:
  "list_toks (map VString ss) = map WString ss"
  "list_toks (map VI64 is) = map WI64 is"
  "list_toks (map VI32 fs) = map WI32 fs"
  by (induction ss, simp_all) (induction "is", simp_all, induction fs, simp_all)

lemma Query_write_value: "Query_write q = toks (query_value q)"
  by (simp add: Query_write_def query_value_def)

lemma NumeratorException_write_value: "NumeratorException_write x = toks (exception_value x)"
  by (simp add: NumeratorException_write_def exception_value_def)

text \<open>What a reader makes of a written value: all optional fields are marked as present.\<close>

definition query_marked :: "query \<Rightarrow> query" where
  "query_marked q =
     q\<lparr>q_isset := \<lparr>isset_strings = True, isset_ids = True, isset_failures = True\<rparr>\<rparr>"

definition query_fits :: "query \<Rightarrow> bool" where
  "query_fits q \<longleftrightarrow>
     length (q_strings q) < 2 ^ 32 \<and> length (q_ids q) < 2 ^ 32 \<and> length (q_failures q) < 2 ^ 32"

lemma comp_the_value [simp]:
  "the_string \<circ> VString = id" "the_i64 \<circ> VI64 = id" "the_i32 \<circ> VI32 = id"
  by (simp_all add: fun_eq_iff)

lemma query_fields_marked:
  "fold query_apply
     [(''op'', 1, VI32 (q_op q)),
      (''strings'', 2, VList T_STRING (map VString (q_strings q))),
      (''ids'', 3, VList T_I64 (map VI64 (q_ids q))),
      (''failures'', 4, VList T_I32 (map VI32 (q_failures q)))] (q0, False) = (query_marked q, True)"
  by (cases q; cases q0; cases "q_isset q0")
     (simp add: query_apply_def query_marked_def list_of_def)

lemma list_all_typed [simp]:
  "list_all (\<lambda>x. vtype x = T_STRING) (map VString ss)"
  "list_all (\<lambda>x. vtype x = T_I64) (map VI64 is)"
  "list_all (\<lambda>x. vtype x = T_I32) (map VI32 fs)"
  by (simp_all add: list_all_iff)

lemma reads_Query:
  assumes "protocol_ok P" and "query_fits q"
  shows "reads P (Query_read P q0) (Query_write q) (query_marked q)"
proof -
  let ?fs = "[(''op'', 1, VI32 (q_op q)),
      (''strings'', 2, VList T_STRING (map VString (q_strings q))),
      (''ids'', 3, VList T_I64 (map VI64 (q_ids q))),
      (''failures'', 4, VList T_I32 (map VI32 (q_failures q)))]"
  have "\<forall>f \<in> set ?fs. query_field_ok f"
    using assms(2) by (auto simp: query_field_ok_def list_ok_def query_fits_def)
  from reads_Query_fields [OF assms(1) this, of "(q0, False)" "''Query''"]
  have "reads P (read_struct P (Query_field P) (q0, False)) (Query_write q) (query_marked q, True)"
    by (simp only: query_fields_marked Query_write_value query_value_def)
  from reads_bind [OF this, of
      "\<lambda>(q', isset_op). if \<not> isset_op then throw (TProtocolException INVALID_DATA) else return q'" "[]"]
  show ?thesis by (simp add: Query_read_def reads_return)
qed

lemma reads_NumeratorException:
  assumes "protocol_ok P"
  shows "reads P (NumeratorException_read P x0) (NumeratorException_write x) (x\<lparr>ne_isset_message := True\<rparr>)"
proof -
  let ?fs = "[(''code'', 1, VI32 (ne_code x)), (''message'', 2, VString (ne_message x))]"
  have "fold exception_apply ?fs (x0, False) = (x\<lparr>ne_isset_message := True\<rparr>, True)"
    by (cases x; cases x0) (simp add: exception_apply_def)
  with reads_NumeratorException_fields [OF assms, of ?fs "(x0, False)" "''NumeratorException''"]
  have "reads P (read_struct P (NumeratorException_field P) (x0, False)) (NumeratorException_write x)
      (x\<lparr>ne_isset_message := True\<rparr>, True)"
    by (simp add: NumeratorException_write_value exception_value_def)
  from reads_bind [OF this, of
      "\<lambda>(x', isset_code). if \<not> isset_code then throw (TProtocolException INVALID_DATA) else return x'" "[]"]
  show ?thesis by (simp add: NumeratorException_read_def reads_return)
qed

section \<open>The contract of a generated struct\<close>

text \<open>
  What every struct of the interface promises its users: reading what was written gives the
  value back, with the presence flags set.  \<open>fresh\<close> is the object that is read into; the
  sender's struct and the receiver's may be different classes of the generated code.
\<close>

text \<open>A message around a struct: what follows the header, and the calls that send it.\<close>

definition read_message :: "'p tprotocol \<Rightarrow> ('p, 'a) rd \<Rightarrow> ('p, 'a) rd" where
  "read_message P m =
     bind_rd m (\<lambda>a. then_rd (call (readMessageEnd P)) (then_rd (call (readEnd P)) (return a)))"

definition write_message :: "string \<Rightarrow> message_type \<Rightarrow> 32 word \<Rightarrow> wcall list \<Rightarrow> wcall list" where
  "write_message n t i body =
     WMessageBegin n t i # body @ [WMessageEnd, WTransportEnd, WFlush]"

lemma reads_message:
  assumes "protocol_ok P" and "reads P m ts a"
  shows "reads P (read_message P m) (ts @ [WMessageEnd]) a"
proof -
  have "reads P (then_rd (call (readMessageEnd P)) (then_rd (call (readEnd P)) (return a))) [WMessageEnd] a"
    by (intro reads_then_cons [OF protocol_reads(2)] reads_then_none [OF protocol_reads(3)] reads_return assms(1))
  with assms(2) show ?thesis unfolding read_message_def by (rule reads_bind)
qed

locale codec =
  fixes rd :: "'p tprotocol \<Rightarrow> 'b \<Rightarrow> ('p, 'b) rd"
    and wr :: "'a \<Rightarrow> wcall list"
    and fresh :: 'b
    and fits :: "'a \<Rightarrow> bool"
    and mark :: "'a \<Rightarrow> 'b"
  assumes reads_back: "protocol_ok P \<Longrightarrow> fits a \<Longrightarrow> reads P (rd P fresh) (wr a) (mark a)"
    and wr_wire: "concat (map wire (wr a)) = wr a"
begin

lemma body_reads_back:
  "protocol_ok P \<Longrightarrow> fits a \<Longrightarrow> reads P (read_message P (rd P fresh)) (wr a @ [WMessageEnd]) (mark a)"
  by (intro reads_message reads_back)

lemma message_sent:
  assumes "protocol_ok P" and "emit_all P (write_message n t i (wr a)) p = Inr p'"
  shows "sent P p' = sent P p @ WMessageBegin n t i # wr a @ [WMessageEnd] \<and> pending P p' = pending P p"
  using emit_all_sent [OF assms] wr_wire [of a] by (simp add: write_message_def)

lemma roundtrip:
  assumes "protocol_ok P" and "fits a" and "emit_all P (wr a) p = Inr p'"
    and "sent P p = []" and "pending P c = sent P p' @ r"
  shows "\<exists>c'. rd P fresh c = Some (Inr (mark a, c')) \<and> pending P c' = r"
  using emit_all_sent [OF assms(1,3)] reads_back [OF assms(1,2)] assms(4,5) wr_wire [of a]
  unfolding reads_def by fastforce

end

lemma wire_toks:
  "concat (map wire (toks v)) = toks v"
  "concat (map wire (list_toks vs)) = list_toks vs"
  "concat (map wire (field_toks fs)) = field_toks fs"
  by (induction v and vs and fs rule: toks_list_toks_field_toks.induct) simp_all

interpretation query_codec: codec Query_read Query_write q0 query_fits query_marked
  for q0
  by unfold_locales (rule reads_Query, assumption+, simp add: Query_write_value wire_toks)

interpretation exception_codec: codec NumeratorException_read NumeratorException_write x0 "\<lambda>_. True"
  "\<lambda>x. x\<lparr>ne_isset_message := True\<rparr>"
  for x0
  by unfold_locales
    (erule reads_NumeratorException, simp add: NumeratorException_write_value wire_toks)

section \<open>Properties\<close>

text \<open>
  C36. A \<open>Query\<close> survives the wire: what \<open>Query::write\<close> sent, \<open>Query::read\<close> reads back,
  into any object, with all four fields equal and the three optional fields marked as
  present; it consumes exactly what was written.  The vectors must fit the 32-bit sizes.
\<close>

theorem Query_roundtrip:
  assumes "protocol_ok P" and "query_fits q" and "emit_all P (Query_write q) p = Inr p'"
    and "sent P p = []" and "pending P c = sent P p' @ r"
  shows "\<exists>q' c'. Query_read P q0 c = Some (Inr (q', c')) \<and> pending P c' = r \<and> Query_eq q' q \<and>
           q_isset q' = \<lparr>isset_strings = True, isset_ids = True, isset_failures = True\<rparr>"
proof -
  have "Query_eq (query_marked q) q" by (simp add: query_marked_def Query_eq_def)
  moreover have "q_isset (query_marked q) =
      \<lparr>isset_strings = True, isset_ids = True, isset_failures = True\<rparr>"
    by (simp add: query_marked_def)
  ultimately show ?thesis using query_codec.roundtrip [OF assms, of q0] by blast
qed

theorem Query_roundtrip_witness:
  "\<exists>q' c'. Query_read tape_protocol Query_new
       (Query_write (Query_new\<lparr>q_op := STR2ID, q_strings := [''a'', ''b'']\<rparr>) @ [WMessageEnd], [])
     = Some (Inr (q', c')) \<and> fst c' = [WMessageEnd] \<and>
     Query_eq q' (Query_new\<lparr>q_op := STR2ID, q_strings := [''a'', ''b'']\<rparr>)"
proof -
  let ?q = "Query_new\<lparr>q_op := STR2ID, q_strings := [''a'', ''b'']\<rparr>"
  have emit: "emit_all tape_protocol cs (a, b) = Inr (a, b @ concat (map wire cs))" for cs a b
    by (induction cs arbitrary: b) (simp_all add: tape_protocol_def)
  have "emit_all tape_protocol (Query_write ?q) ([], []) = Inr ([], Query_write ?q)"
    by (simp add: emit query_codec.wr_wire)
  from Query_roundtrip [OF tape_protocol_ok _ this, of "(Query_write ?q @ [WMessageEnd], [])" "[WMessageEnd]" Query_new]
  show ?thesis by (auto simp: query_fits_def Query_new_def tape_protocol_def)
qed

text \<open>
  C37. \<open>Query::read\<close> understands data of other versions of the interface: fields it does not
  know, or whose type is another one, are skipped wherever they stand, so the result is the
  one of the known fields alone, as long as there is an \<open>op\<close> field among them.
\<close>

theorem Query_read_ignores_unknown:
  assumes "protocol_ok P" and "\<forall>f \<in> set fs. query_field_ok f"
    and "\<exists>n v. (n, 1, v) \<in> set fs \<and> vtype v = T_I32"
    and "pending P c = toks (VStruct m fs) @ r"
    and "pending P c0 = toks (VStruct m (filter known_query_field fs)) @ r"
  shows "\<exists>q c' c0'. Query_read P q0 c = Some (Inr (q, c')) \<and> pending P c' = r \<and>
           Query_read P q0 c0 = Some (Inr (q, c0')) \<and> pending P c0' = r"
proof -
  have same: "fold query_apply (filter known_query_field gs) s = fold query_apply gs s" for gs s
  proof -
    have "query_apply f s = s" if "\<not> known_query_field f" for f s
      using that by (auto simp: query_apply_def known_query_field_def split: prod.splits)
    then show ?thesis by (induction gs arbitrary: s) auto
  qed
  have keeps: "snd (fold query_apply gs s)" if "snd s" for gs s
    using that by (induction gs arbitrary: s) (auto simp: query_apply_def split: prod.splits)
  have seen: "snd (fold query_apply gs s)" if "(n, 1, v) \<in> set gs" "vtype v = T_I32" for gs s n v
    using that(1)
  proof (induction gs arbitrary: s)
    case (Cons g gs)
    show ?case
    proof (cases "g = (n, 1, v)")
      case True
      then have "snd (query_apply g s)" using that(2) by (cases s) (simp add: query_apply_def)
      then show ?thesis by (simp add: keeps)
    qed (use Cons in simp)
  qed simp
  obtain q where q: "fold query_apply fs (q0, False) = (q, True)"
    using assms(3) seen [of _ _ fs "(q0, False)"] by (metis prod.collapse)
  have main: "\<exists>c'. Query_read P q0 c = Some (Inr (q, c')) \<and> pending P c' = r"
    if "\<forall>f \<in> set gs. query_field_ok f" "fold query_apply gs (q0, False) = (q, True)"
      "pending P c = toks (VStruct m gs) @ r" for gs c
  proof -
    have "\<exists>c'. read_struct P (Query_field P) (q0, False) c = Some (Inr ((q, True), c')) \<and> pending P c' = r"
      using reads_Query_fields [OF assms(1) that(1), of "(q0, False)" m] that(2,3)
      unfolding reads_def by metis
    then show ?thesis by (auto simp: Query_read_def bind_rd_def return_def)
  qed
  from main [OF assms(2) q assms(4)] main [of "filter known_query_field fs" c0] assms(2,5) q same
  show ?thesis by auto
qed

definition newer_fields :: "(string \<times> 16 word \<times> tval) list" where
  "newer_fields = [(''trace'', 9, VStruct ''Trace'' [(''id'', 1, VI64 5)]), (''op'', 1, VI32 STR2ID),
     (''ids'', 3, VString ''of another type'')]"

theorem Query_read_ignores_unknown_witness:
  "\<exists>q c' c0'. Query_read tape_protocol Query_new (toks (VStruct ''Query'' newer_fields), []) =
       Some (Inr (q, c')) \<and>
     Query_read tape_protocol Query_new (toks (VStruct ''Query'' [(''op'', 1, VI32 STR2ID)]), []) =
       Some (Inr (q, c0'))"
proof -
  have "\<forall>f \<in> set newer_fields. query_field_ok f"
    by (simp add: newer_fields_def query_field_ok_def skip_depth_def)
  moreover have "\<exists>n v. (n, 1, v) \<in> set newer_fields \<and> vtype v = T_I32"
    by (auto simp: newer_fields_def)
  moreover have "filter known_query_field newer_fields = [(''op'', 1, VI32 STR2ID)]"
    by (simp add: newer_fields_def known_query_field_def)
  ultimately show ?thesis
    using Query_read_ignores_unknown [OF tape_protocol_ok, of newer_fields
        "(toks (VStruct ''Query'' newer_fields), [])" "''Query''" "[]"
        "(toks (VStruct ''Query'' [(''op'', 1, VI32 STR2ID)]), [])" Query_new]
    by (auto simp: tape_protocol_def)
qed

text \<open>
  The required field is checked: when the data of a \<open>Query\<close> is complete but has no \<open>op\<close>
  field of the declared type, \<open>Query::read\<close> reads all of it and then throws
  \<open>TProtocolException(INVALID_DATA)\<close>.
\<close>

theorem Query_read_missing_op:
  assumes "protocol_ok P" and "\<forall>f \<in> set fs. query_field_ok f"
    and "\<forall>(n, i, v) \<in> set fs. \<not> (i = 1 \<and> vtype v = T_I32)"
    and "pending P c = toks (VStruct m fs) @ r"
  shows "Query_read P q0 c = Some (Inl (TProtocolException INVALID_DATA))"
proof -
  have "snd (fold query_apply fs (q, False)) = False" for q
    using assms(3)
  proof (induction fs arbitrary: q)
    case (Cons f fs)
    then have "\<not> snd (query_apply f (q, False))"
      by (cases f) (simp add: query_apply_def)
    then obtain q' where "query_apply f (q, False) = (q', False)" by (metis prod.collapse)
    with Cons show ?case by simp
  qed simp
  then obtain q where q: "fold query_apply fs (q0, False) = (q, False)" by (metis prod.collapse)
  obtain c' where "read_struct P (Query_field P) (q0, False) c = Some (Inr ((q, False), c'))"
    using reads_Query_fields [OF assms(1,2), of "(q0, False)" m] assms(4) q
    unfolding reads_def by metis
  then show ?thesis by (simp add: Query_read_def bind_rd_def throw_def)
qed

theorem Query_read_missing_op_witness:
  "Query_read tape_protocol Query_new (toks (VStruct ''Query'' [(''op'', 1, VI64 1)]), []) =
     Some (Inl (TProtocolException INVALID_DATA))"
proof -
  have "\<forall>f \<in> set [(''op'', 1, VI64 1)]. query_field_ok f"
    by (simp add: query_field_ok_def skip_depth_def)
  from Query_read_missing_op [OF tape_protocol_ok this,
      of "(toks (VStruct ''Query'' [(''op'', 1, VI64 1)]), [])" "''Query''" "[]" Query_new]
  show ?thesis by (simp add: tape_protocol_def)
qed

end
