(* ===== verification/Thrift_Service.thy ===== *)
theory Thrift_Service
  imports Thrift_Types Handler
begin

text \<open>
  gen-cpp/Numerator.cpp and Numerator.h: the argument and result structs of the four methods,
  the client that the command line tool uses and the processor that the server runs.  No
  event handler is ever registered in the program, so \<open>eventHandler_\<close> is null and its
  callbacks are left out.  The client that threads share is in Concurrent\_Client.
\<close>

section \<open>The structs without fields\<close>

definition empty_read :: "'p tprotocol \<Rightarrow> unit \<Rightarrow> ('p, unit) rd" where
  "empty_read P = read_struct P (\<lambda>ftype fid s. skip_field P ftype s)"

definition empty_write :: "string \<Rightarrow> unit \<Rightarrow> wcall list" where
  "empty_write name s = [WStructBegin name, WFieldStop, WStructEnd]"

definition Numerator_ping_args_read :: "'p tprotocol \<Rightarrow> unit \<Rightarrow> ('p, unit) rd" where
  "Numerator_ping_args_read P = empty_read P"

definition Numerator_ping_result_read :: "'p tprotocol \<Rightarrow> unit \<Rightarrow> ('p, unit) rd" where
  "Numerator_ping_result_read P = empty_read P"

definition Numerator_ping_presult_read :: "'p tprotocol \<Rightarrow> unit \<Rightarrow> ('p, unit) rd" where
  "Numerator_ping_presult_read P = empty_read P"

definition Numerator_ping_args_write :: "unit \<Rightarrow> wcall list" where
  "Numerator_ping_args_write = empty_write ''Numerator_ping_args''"

definition Numerator_ping_pargs_write :: "unit \<Rightarrow> wcall list" where
  "Numerator_ping_pargs_write = empty_write ''Numerator_ping_pargs''"

definition Numerator_ping_result_write :: "unit \<Rightarrow> wcall list" where
  "Numerator_ping_result_write = empty_write ''Numerator_ping_result''"

definition Numerator_disable_s2i_args_read :: "'p tprotocol \<Rightarrow> unit \<Rightarrow> ('p, unit) rd" where
  "Numerator_disable_s2i_args_read P = empty_read P"

definition Numerator_disable_s2i_result_read :: "'p tprotocol \<Rightarrow> unit \<Rightarrow> ('p, unit) rd" where
  "Numerator_disable_s2i_result_read P = empty_read P"

definition Numerator_disable_s2i_presult_read :: "'p tprotocol \<Rightarrow> unit \<Rightarrow> ('p, unit) rd" where
  "Numerator_disable_s2i_presult_read P = empty_read P"

definition Numerator_disable_s2i_args_write :: "unit \<Rightarrow> wcall list" where
  "Numerator_disable_s2i_args_write = empty_write ''Numerator_disable_s2i_args''"

definition Numerator_disable_s2i_pargs_write :: "unit \<Rightarrow> wcall list" where
  "Numerator_disable_s2i_pargs_write = empty_write ''Numerator_disable_s2i_pargs''"

definition Numerator_disable_s2i_result_write :: "unit \<Rightarrow> wcall list" where
  "Numerator_disable_s2i_result_write = empty_write ''Numerator_disable_s2i_result''"

definition Numerator_enable_s2i_args_read :: "'p tprotocol \<Rightarrow> unit \<Rightarrow> ('p, unit) rd" where
  "Numerator_enable_s2i_args_read P = empty_read P"

definition Numerator_enable_s2i_result_read :: "'p tprotocol \<Rightarrow> unit \<Rightarrow> ('p, unit) rd" where
  "Numerator_enable_s2i_result_read P = empty_read P"

definition Numerator_enable_s2i_presult_read :: "'p tprotocol \<Rightarrow> unit \<Rightarrow> ('p, unit) rd" where
  "Numerator_enable_s2i_presult_read P = empty_read P"

definition Numerator_enable_s2i_args_write :: "unit \<Rightarrow> wcall list" where
  "Numerator_enable_s2i_args_write = empty_write ''Numerator_enable_s2i_args''"

definition Numerator_enable_s2i_pargs_write :: "unit \<Rightarrow> wcall list" where
  "Numerator_enable_s2i_pargs_write = empty_write ''Numerator_enable_s2i_pargs''"

definition Numerator_enable_s2i_result_write :: "unit \<Rightarrow> wcall list" where
  "Numerator_enable_s2i_result_write = empty_write ''Numerator_enable_s2i_result''"

section \<open>The structs of query\<close>

record query_args =
  a_request :: query
  a_isset_request :: bool

definition Numerator_query_args_new :: query_args where
  "Numerator_query_args_new = \<lparr>a_request = Query_new, a_isset_request = False\<rparr>"

definition Numerator_query_args_field :: "'p tprotocol \<Rightarrow> ttype \<Rightarrow> 16 word \<Rightarrow> query_args \<Rightarrow> ('p, query_args) rd" where
  "Numerator_query_args_field P ftype fid s =
     (if fid = 1 then
        (if ftype = T_STRUCT
         then bind_rd (Query_read P (a_request s)) (\<lambda>q. return \<lparr>a_request = q, a_isset_request = True\<rparr>)
         else skip_field P ftype s)
      else skip_field P ftype s)"

definition Numerator_query_args_read :: "'p tprotocol \<Rightarrow> query_args \<Rightarrow> ('p, query_args) rd" where
  "Numerator_query_args_read P = read_struct P (Numerator_query_args_field P)"

definition Numerator_query_args_write :: "query_args \<Rightarrow> wcall list" where
  "Numerator_query_args_write a =
     [WStructBegin ''Numerator_query_args'', WFieldBegin ''request'' T_STRUCT 1] @
     Query_write (a_request a) @ [WFieldEnd, WFieldStop, WStructEnd]"

definition Numerator_query_pargs_write :: "query \<Rightarrow> wcall list" where
  "Numerator_query_pargs_write request =
     [WStructBegin ''Numerator_query_pargs'', WFieldBegin ''request'' T_STRUCT 1] @
     Query_write request @ [WFieldEnd, WFieldStop, WStructEnd]"

text \<open>
  The client's \<open>presult\<close> holds a pointer to the caller's \<open>_return\<close> in place of \<open>success\<close>;
  here it is the same record, read into with that object as \<open>success\<close>.
\<close>

record query_result =
  r_success :: query
  r_exc :: numerator_exception
  r_isset_success :: bool
  r_isset_exc :: bool

definition Numerator_query_result_new :: query_result where
  "Numerator_query_result_new =
     \<lparr>r_success = Query_new, r_exc = NumeratorException_new,
      r_isset_success = False, r_isset_exc = False\<rparr>"

definition query_result_field :: "'p tprotocol \<Rightarrow> ttype \<Rightarrow> 16 word \<Rightarrow> query_result \<Rightarrow> ('p, query_result) rd" where
  "query_result_field P ftype fid s =
     (if fid = 0 then
        (if ftype = T_STRUCT
         then bind_rd (Query_read P (r_success s))
                (\<lambda>q. return (s\<lparr>r_success := q, r_isset_success := True\<rparr>))
         else skip_field P ftype s)
      else if fid = 1 then
        (if ftype = T_STRUCT
         then bind_rd (NumeratorException_read P (r_exc s))
                (\<lambda>x. return (s\<lparr>r_exc := x, r_isset_exc := True\<rparr>))
         else skip_field P ftype s)
      else skip_field P ftype s)"

definition Numerator_query_result_read :: "'p tprotocol \<Rightarrow> query_result \<Rightarrow> ('p, query_result) rd" where
  "Numerator_query_result_read P = read_struct P (query_result_field P)"

definition Numerator_query_presult_read :: "'p tprotocol \<Rightarrow> query_result \<Rightarrow> ('p, query_result) rd" where
  "Numerator_query_presult_read P = read_struct P (query_result_field P)"

definition Numerator_query_result_write :: "query_result \<Rightarrow> wcall list" where
  "Numerator_query_result_write r =
     [WStructBegin ''Numerator_query_result''] @
     (if r_isset_success r
      then [WFieldBegin ''success'' T_STRUCT 0] @ Query_write (r_success r) @ [WFieldEnd]
      else if r_isset_exc r
      then [WFieldBegin ''exc'' T_STRUCT 1] @ NumeratorException_write (r_exc r) @ [WFieldEnd]
      else []) @
     [WFieldStop, WStructEnd]"

section \<open>The client\<close>

text \<open>
  What every \<open>recv\<close> does with the header of the reply.  A reply that is no reply, or to
  another method, is passed over, and the function then goes on reading.
\<close>

definition discard :: "'p tprotocol \<Rightarrow> ('p, unit) rd" where
  "discard P =
     then_rd (call (skip_type P T_STRUCT)) (then_rd (call (readMessageEnd P)) (call (readEnd P)))"

definition recv_header :: "'p tprotocol \<Rightarrow> string \<Rightarrow> ('p, unit) rd" where
  "recv_header P name =
     bind_rd (call (readMessageBegin P))
       (\<lambda>(fname, mtype, rseqid).
          if mtype = T_EXCEPTION
          then bind_rd (call (readAppExc P))
                 (\<lambda>(t, m). then_rd (call (readMessageEnd P))
                   (then_rd (call (readEnd P)) (throw (TApplicationException t m))))
          else then_rd (if mtype \<noteq> T_REPLY then discard P else return ())
                 (if fname \<noteq> name then discard P else return ()))"

text \<open>A method as a whole: send, then receive on the same connection.\<close>

definition send_recv :: "('p \<Rightarrow> texc + 'p) \<Rightarrow> ('p, 'a) rd \<Rightarrow> ('p, 'a) rd" where
  "send_recv send receive p =
     (case send p of Inl e \<Rightarrow> Some (Inl e) | Inr p' \<Rightarrow> receive p')"

definition NumeratorClient_send_query :: "'p tprotocol \<Rightarrow> query \<Rightarrow> 'p \<Rightarrow> texc + 'p" where
  "NumeratorClient_send_query P request =
     emit_all P (write_message ''query'' T_CALL 0 (Numerator_query_pargs_write request))"

definition NumeratorClient_recv_query :: "'p tprotocol \<Rightarrow> query \<Rightarrow> ('p, query) rd" where
  "NumeratorClient_recv_query P ret =
     then_rd (recv_header P ''query'')
       (bind_rd (read_message P
           (Numerator_query_presult_read P (Numerator_query_result_new\<lparr>r_success := ret\<rparr>)))
         (\<lambda>result.
            if r_isset_success result then return (r_success result)
            else if r_isset_exc result then throw (Declared (r_exc result))
            else throw (TApplicationException MISSING_RESULT ''query failed: unknown result'')))"

definition NumeratorClient_query :: "'p tprotocol \<Rightarrow> query \<Rightarrow> query \<Rightarrow> ('p, query) rd" where
  "NumeratorClient_query P ret request =
     send_recv (NumeratorClient_send_query P request) (NumeratorClient_recv_query P ret)"

definition NumeratorClient_send_ping :: "'p tprotocol \<Rightarrow> 'p \<Rightarrow> texc + 'p" where
  "NumeratorClient_send_ping P =
     emit_all P (write_message ''ping'' T_CALL 0 (Numerator_ping_pargs_write ()))"

definition NumeratorClient_recv_ping :: "'p tprotocol \<Rightarrow> ('p, unit) rd" where
  "NumeratorClient_recv_ping P =
     then_rd (recv_header P ''ping'') (read_message P (Numerator_ping_presult_read P ()))"

definition NumeratorClient_ping :: "'p tprotocol \<Rightarrow> ('p, unit) rd" where
  "NumeratorClient_ping P = send_recv (NumeratorClient_send_ping P) (NumeratorClient_recv_ping P)"

definition NumeratorClient_send_disable_s2i :: "'p tprotocol \<Rightarrow> 'p \<Rightarrow> texc + 'p" where
  "NumeratorClient_send_disable_s2i P =
     emit_all P (write_message ''disable_s2i'' T_CALL 0 (Numerator_disable_s2i_pargs_write ()))"

definition NumeratorClient_recv_disable_s2i :: "'p tprotocol \<Rightarrow> ('p, unit) rd" where
  "NumeratorClient_recv_disable_s2i P =
     then_rd (recv_header P ''disable_s2i'') (read_message P (Numerator_disable_s2i_presult_read P ()))"

definition NumeratorClient_disable_s2i :: "'p tprotocol \<Rightarrow> ('p, unit) rd" where
  "NumeratorClient_disable_s2i P = send_recv (NumeratorClient_send_disable_s2i P) (NumeratorClient_recv_disable_s2i P)"

definition NumeratorClient_send_enable_s2i :: "'p tprotocol \<Rightarrow> 'p \<Rightarrow> texc + 'p" where
  "NumeratorClient_send_enable_s2i P =
     emit_all P (write_message ''enable_s2i'' T_CALL 0 (Numerator_enable_s2i_pargs_write ()))"

definition NumeratorClient_recv_enable_s2i :: "'p tprotocol \<Rightarrow> ('p, unit) rd" where
  "NumeratorClient_recv_enable_s2i P =
     then_rd (recv_header P ''enable_s2i'') (read_message P (Numerator_enable_s2i_presult_read P ()))"

definition NumeratorClient_enable_s2i :: "'p tprotocol \<Rightarrow> ('p, unit) rd" where
  "NumeratorClient_enable_s2i P = send_recv (NumeratorClient_send_enable_s2i P) (NumeratorClient_recv_enable_s2i P)"

section \<open>The processor\<close>

record 'h iface =
  iface_ping :: "'h \<Rightarrow> unit call \<times> 'h"
  iface_query :: "query \<Rightarrow> query \<Rightarrow> 'h \<Rightarrow> query call \<times> 'h"
  iface_disable_s2i :: "'h \<Rightarrow> unit call \<times> 'h"
  iface_enable_s2i :: "'h \<Rightarrow> unit call \<times> 'h"

text \<open>
  How serving one message ends: with the reply sent, with an exception that leaves the
  processor (the library then closes the connection), or not at all.
\<close>

datatype 'p served = Replied 'p | Dropped texc | Hung | Exited | Crashed ub

definition NumeratorException_printTo :: "numerator_exception \<Rightarrow> string" where
  "NumeratorException_printTo x =
     ''NumeratorException('' @ ''code='' @ print_int (sint (ne_code x)) @
     '', '' @ ''message='' @ ne_message x @ '')''"

text \<open>\<open>operator<<\<close>: the text that the stream has afterwards.\<close>

definition NumeratorException_output :: "string \<Rightarrow> numerator_exception \<Rightarrow> string" where
  "NumeratorException_output out x = out @ NumeratorException_printTo x"

definition NumeratorException_what :: "numerator_exception \<Rightarrow> string" where
  "NumeratorException_what x =
     cstr (NumeratorException_output ''TException - service has thrown: '' x)"

definition reply_msg :: "'p tprotocol \<Rightarrow> wcall list \<Rightarrow> 'p \<Rightarrow> 'h \<Rightarrow> 'p served \<times> 'h" where
  "reply_msg P cs p h =
     (case emit_all P cs p of Inl e \<Rightarrow> (Dropped e, h) | Inr p' \<Rightarrow> (Replied p', h))"

text \<open>
  What the four \<open>process\<close> functions share: read the arguments, call the handler, send its
  result or the \<open>std::exception\<close> it threw; \<open>what\<close> gives the text of an \<open>Exc\<close>.  \<open>handle\<close>
  is the \<open>try\<close> block; what it returns is the written result struct.
\<close>

definition process_call ::
  "'p tprotocol \<Rightarrow> (exc \<Rightarrow> string) \<Rightarrow> string \<Rightarrow> ('p, 'a) rd \<Rightarrow>
     ('a \<Rightarrow> 'h \<Rightarrow> wcall list call \<times> 'h) \<Rightarrow> 32 word \<Rightarrow> 'p \<Rightarrow> 'h \<Rightarrow> 'p served \<times> 'h" where
  "process_call P what name args_read handle seqid p h =
     (case read_message P args_read p of
        None \<Rightarrow> (Hung, h)
      | Some (Inl e) \<Rightarrow> (Dropped e, h)
      | Some (Inr (args, p1)) \<Rightarrow>
          (case handle args h of
             (Returned result, h') \<Rightarrow> reply_msg P (write_message name T_REPLY seqid result) p1 h'
           | (ThrownNE x, h') \<Rightarrow>
               reply_msg P (write_message name T_EXCEPTION seqid
                              [WAppExc UNKNOWN (NumeratorException_what x)]) p1 h'
           | (ThrownExc x, h') \<Rightarrow>
               reply_msg P (write_message name T_EXCEPTION seqid [WAppExc UNKNOWN (what x)]) p1 h'
           | (Undefined u, h') \<Rightarrow> (Crashed u, h')
           | (ProcessExit, h') \<Rightarrow> (Exited, h')))"

definition void_result :: "(unit \<Rightarrow> wcall list) \<Rightarrow> ('h \<Rightarrow> unit call \<times> 'h) \<Rightarrow> unit \<Rightarrow> 'h \<Rightarrow> wcall list call \<times> 'h" where
  "void_result w f args h = (case f h of (c, h') \<Rightarrow> (map_call w c, h'))"

definition query_result_call :: "query call \<Rightarrow> wcall list call" where
  "query_result_call c =
     (case c of
        Returned resp \<Rightarrow>
          Returned (Numerator_query_result_write
            (Numerator_query_result_new\<lparr>r_success := resp, r_isset_success := True\<rparr>))
      | ThrownNE x \<Rightarrow>
          Returned (Numerator_query_result_write
            (Numerator_query_result_new\<lparr>r_exc := x, r_isset_exc := True\<rparr>))
      | ThrownExc x \<Rightarrow> ThrownExc x
      | Undefined u \<Rightarrow> Undefined u
      | ProcessExit \<Rightarrow> ProcessExit)"

definition query_handle :: "'h iface \<Rightarrow> query_args \<Rightarrow> 'h \<Rightarrow> wcall list call \<times> 'h" where
  "query_handle I args h =
     (case iface_query I Query_new (a_request args) h of (c, h') \<Rightarrow> (query_result_call c, h'))"

definition process_query ::
  "'p tprotocol \<Rightarrow> (exc \<Rightarrow> string) \<Rightarrow> 'h iface \<Rightarrow> 32 word \<Rightarrow> 'p \<Rightarrow> 'h \<Rightarrow> 'p served \<times> 'h" where
  "process_query P what I =
     process_call P what ''query'' (Numerator_query_args_read P Numerator_query_args_new) (query_handle I)"

definition process_ping ::
  "'p tprotocol \<Rightarrow> (exc \<Rightarrow> string) \<Rightarrow> 'h iface \<Rightarrow> 32 word \<Rightarrow> 'p \<Rightarrow> 'h \<Rightarrow> 'p served \<times> 'h" where
  "process_ping P what I =
     process_call P what ''ping'' (Numerator_ping_args_read P ())
       (void_result Numerator_ping_result_write (iface_ping I))"

definition process_disable_s2i ::
  "'p tprotocol \<Rightarrow> (exc \<Rightarrow> string) \<Rightarrow> 'h iface \<Rightarrow> 32 word \<Rightarrow> 'p \<Rightarrow> 'h \<Rightarrow> 'p served \<times> 'h" where
  "process_disable_s2i P what I =
     process_call P what ''disable_s2i'' (Numerator_disable_s2i_args_read P ())
       (void_result Numerator_disable_s2i_result_write (iface_disable_s2i I))"

definition process_enable_s2i ::
  "'p tprotocol \<Rightarrow> (exc \<Rightarrow> string) \<Rightarrow> 'h iface \<Rightarrow> 32 word \<Rightarrow> 'p \<Rightarrow> 'h \<Rightarrow> 'p served \<times> 'h" where
  "process_enable_s2i P what I =
     process_call P what ''enable_s2i'' (Numerator_enable_s2i_args_read P ())
       (void_result Numerator_enable_s2i_result_write (iface_enable_s2i I))"

definition processMap ::
  "'p tprotocol \<Rightarrow> (exc \<Rightarrow> string) \<Rightarrow> 'h iface \<Rightarrow> string \<rightharpoonup> (32 word \<Rightarrow> 'p \<Rightarrow> 'h \<Rightarrow> 'p served \<times> 'h)" where
  "processMap P what I =
     [''ping'' \<mapsto> process_ping P what I,
      ''query'' \<mapsto> process_query P what I,
      ''disable_s2i'' \<mapsto> process_disable_s2i P what I,
      ''enable_s2i'' \<mapsto> process_enable_s2i P what I]"

definition NumeratorProcessor_dispatchCall ::
  "'p tprotocol \<Rightarrow> (exc \<Rightarrow> string) \<Rightarrow> 'h iface \<Rightarrow> string \<Rightarrow> 32 word \<Rightarrow> 'p \<Rightarrow> 'h \<Rightarrow> 'p served \<times> 'h" where
  "NumeratorProcessor_dispatchCall P what I fname seqid p h =
     (case processMap P what I fname of
        None \<Rightarrow>
          (case discard P p of
             None \<Rightarrow> (Hung, h)
           | Some (Inl e) \<Rightarrow> (Dropped e, h)
           | Some (Inr (_, p1)) \<Rightarrow>
               reply_msg P (write_message fname T_EXCEPTION seqid
                 [WAppExc UNKNOWN_METHOD
                    (''Invalid method name: '' @ [CHR 0x27] @ fname @ [CHR 0x27])]) p1 h)
      | Some pfn \<Rightarrow> pfn seqid p h)"

section \<open>One exchange of messages\<close>

lemma reads_recv_header:
  assumes "protocol_ok P"
  shows "reads P (recv_header P name) [WMessageBegin name T_REPLY i] ()"
proof -
  have "reads P (then_rd (return ()) (return ())) [] ()"
    by (rule reads_then_none [OF reads_return reads_return])
  then show ?thesis unfolding recv_header_def
    by (intro reads_bind_cons [OF protocol_reads(1) [OF assms]]) simp
qed

lemma throw_then [simp]:
  "then_rd (throw e) k = throw e" "bind_rd (throw e) k' = throw e"
  by (simp_all add: then_rd_def bind_rd_def throw_def fun_eq_iff)

text \<open>\<open>fails P m ts e\<close>: where the data of \<open>ts\<close> comes next, \<open>m\<close> throws \<open>e\<close>.\<close>

definition fails :: "'p tprotocol \<Rightarrow> ('p, 'a) rd \<Rightarrow> wcall list \<Rightarrow> texc \<Rightarrow> bool" where
  "fails P m ts e \<longleftrightarrow> (\<forall>p r. pending P p = ts @ r \<longrightarrow> m p = Some (Inl e))"

lemma fails_throw: "fails P (throw e) [] e"
  by (simp add: fails_def throw_def)

lemma fails_bind:
  assumes "reads P m xs a" and "fails P (k a) ys e"
  shows "fails P (bind_rd m k) (xs @ ys) e"
  unfolding fails_def
proof (intro allI impI)
  fix p r
  assume "pending P p = (xs @ ys) @ r"
  then obtain p1 where "m p = Some (Inr (a, p1))" "pending P p1 = ys @ r"
    using assms(1) unfolding reads_def by (metis append.assoc)
  with assms(2) show "bind_rd m k p = Some (Inl e)" by (auto simp: fails_def bind_rd_def)
qed

lemma fails_bind_cons: "reads P m [c] a \<Longrightarrow> fails P (k a) ys e \<Longrightarrow> fails P (bind_rd m k) (c # ys) e"
  using fails_bind [of P m "[c]"] by simp

lemma fails_bind_none: "reads P m [] a \<Longrightarrow> fails P (k a) ys e \<Longrightarrow> fails P (bind_rd m k) ys e"
  using fails_bind [of P m "[]"] by simp

lemma fails_first: "fails P m ts e \<Longrightarrow> fails P (then_rd m k) ts e"
  by (simp add: fails_def then_rd_def bind_rd_def)

lemma fails_recv_header:
  assumes "protocol_ok P"
  shows "fails P (recv_header P name) [WMessageBegin n T_EXCEPTION i, WAppExc t m, WMessageEnd]
           (TApplicationException t m)"
proof -
  have "fails P (then_rd (call (readMessageEnd P)) (then_rd (call (readEnd P))
      (throw (TApplicationException t m)))) [WMessageEnd] (TApplicationException t m)"
    unfolding then_rd_def
    by (intro fails_bind_cons [OF protocol_reads(2)] fails_bind_none [OF protocol_reads(3)] fails_throw assms)
  then have "fails P (bind_rd (call (readAppExc P)) (\<lambda>(t, m). then_rd (call (readMessageEnd P))
      (then_rd (call (readEnd P)) (throw (TApplicationException t m)))))
      [WAppExc t m, WMessageEnd] (TApplicationException t m)"
    by (intro fails_bind_cons [OF protocol_reads(13) [OF assms]]) simp
  then show ?thesis unfolding recv_header_def
    by (intro fails_bind_cons [OF protocol_reads(1) [OF assms]]) simp
qed

text \<open>The messages that a handler's outcome turns into, once the arguments are read.\<close>

context codec
begin

lemma args_read:
  assumes "protocol_ok P" and "fits a" and "pending P s = wr a @ WMessageEnd # r"
  obtains s1 where "read_message P (rd P fresh) s = Some (Inr (mark a, s1))"
    and "pending P s1 = r" and "sent P s1 = sent P s"
  using body_reads_back [OF assms(1,2)] assms(3) unfolding reads_def by fastforce

end

text \<open>
  A method of the service: the arguments that the client writes are those the processor
  reads, and the result that the processor writes is the one the client reads.
\<close>

locale rpc =
  args: codec ard awr afresh afits amark + result: codec rrd rwr rfresh rfits rmark
  for ard :: "'p tprotocol \<Rightarrow> 'b \<Rightarrow> ('p, 'b) rd"
    and awr :: "'a \<Rightarrow> wcall list" and afresh and afits and amark
    and rrd :: "'p tprotocol \<Rightarrow> 'd \<Rightarrow> ('p, 'd) rd"
    and rwr :: "'c \<Rightarrow> wcall list" and rfresh and rfits and rmark +
  fixes name :: string
begin

text \<open>The client's call arrives: the header, and the arguments behind it.\<close>

lemma call_arrives:
  assumes "protocol_ok P"
    and "emit_all P (write_message name T_CALL i (awr a)) c = Inr c1" and "sent P c = []"
    and "pending P s = sent P c1" and "readMessageBegin P s = Inr ((fname, mtype, seqid), s0)"
  shows "fname = name \<and> mtype = T_CALL \<and> seqid = i \<and> sent P s0 = sent P s \<and>
         pending P s0 = awr a @ [WMessageEnd]"
proof -
  have "sent P c1 = WMessageBegin name T_CALL i # awr a @ [WMessageEnd]"
    using args.message_sent [OF assms(1,2)] assms(3) by simp
  then have "pending P s = [WMessageBegin name T_CALL i] @ (awr a @ [WMessageEnd])"
    using assms(4) by simp
  with protocol_takes(1) [OF assms(1), of name T_CALL i] assms(5)
  show ?thesis unfolding takes_def by fastforce
qed

lemma answered_call:
  assumes "protocol_ok P" and "protocol_no_error P" and "afits a" and "rfits r"
    and "pending P s = awr a @ [WMessageEnd]" and "sent P s = []"
    and "handle (amark a) h = (Returned (rwr r), h')"
  shows "\<exists>s1. process_call P what name (ard P afresh) handle seqid s h = (Replied s1, h') \<and>
           sent P s1 = WMessageBegin name T_REPLY seqid # rwr r @ [WMessageEnd]"
proof -
  obtain s1 where s1: "read_message P (ard P afresh) s = Some (Inr (amark a, s1))"
    "pending P s1 = []" "sent P s1 = []"
    by (rule args.args_read [OF assms(1,3), of s "[]"]) (use assms(5,6) in simp_all)
  obtain s2 where s2: "emit_all P (write_message name T_REPLY seqid (rwr r)) s1 = Inr s2"
    using emit_all_returns [OF assms(2)] by blast
  from s1 s2 result.message_sent [OF assms(1) s2] assms(7) show ?thesis
    by (simp add: process_call_def reply_msg_def)
qed

lemma reply_received:
  assumes "protocol_ok P" and "rfits r"
  shows "reads P (then_rd (recv_header P name) (read_message P (rrd P rfresh)))
           (WMessageBegin name T_REPLY seqid # rwr r @ [WMessageEnd]) (rmark r)"
  using reads_then_cons [OF reads_recv_header [OF assms(1)] result.body_reads_back [OF assms]] .

text \<open>The handler threw: the client's \<open>recv\<close> throws the text.\<close>

lemma faulted_call:
  assumes "protocol_ok P" and "protocol_no_error P" and "afits a"
    and "pending P s = awr a @ [WMessageEnd]" and "sent P s = []"
    and "handle (amark a) h = (ThrownExc x, h')"
  shows "\<exists>s1. process_call P what name (ard P afresh) handle seqid s h = (Replied s1, h') \<and>
           sent P s1 = [WMessageBegin name T_EXCEPTION seqid, WAppExc UNKNOWN (what x), WMessageEnd]"
proof -
  obtain s1 where s1: "read_message P (ard P afresh) s = Some (Inr (amark a, s1))"
    "pending P s1 = []" "sent P s1 = []"
    by (rule args.args_read [OF assms(1,3), of s "[]"]) (use assms(4,5) in simp_all)
  obtain s2 where s2: "emit_all P (write_message name T_EXCEPTION seqid [WAppExc UNKNOWN (what x)]) s1 = Inr s2"
    using emit_all_returns [OF assms(2)] by blast
  from s1 s2 emit_all_sent [OF assms(1) s2] assms(6) show ?thesis
    by (simp add: process_call_def reply_msg_def write_message_def)
qed

lemma ended_call:
  assumes "protocol_ok P" and "afits a" and "pending P s = awr a @ [WMessageEnd]"
    and "handle (amark a) h = (out, h')"
  shows "out = ProcessExit \<Longrightarrow> process_call P what name (ard P afresh) handle seqid s h = (Exited, h')"
    and "out = Undefined u \<Longrightarrow> process_call P what name (ard P afresh) handle seqid s h = (Crashed u, h')"
proof -
  obtain s1 where "read_message P (ard P afresh) s = Some (Inr (amark a, s1))"
    by (rule args.args_read [OF assms(1,2), of s "[]"]) (use assms(3) in simp_all)
  then show "out = ProcessExit \<Longrightarrow> process_call P what name (ard P afresh) handle seqid s h = (Exited, h')"
    and "out = Undefined u \<Longrightarrow> process_call P what name (ard P afresh) handle seqid s h = (Crashed u, h')"
    using assms(4) by (simp_all add: process_call_def)
qed

end

section \<open>The four methods keep the contract\<close>

lemma reads_empty: "protocol_ok P \<Longrightarrow> reads P (empty_read P u) (empty_write n u') ()"
  using reads_struct [of P "[]"] by (simp add: empty_read_def empty_write_def)

lemma wire_empty: "concat (map wire (empty_write n u)) = empty_write n u"
  by (simp add: empty_write_def)

lemmas void_structs =
  Numerator_ping_args_read_def
  Numerator_ping_pargs_write_def
  Numerator_ping_presult_read_def
  Numerator_ping_result_write_def
  Numerator_disable_s2i_args_read_def
  Numerator_disable_s2i_pargs_write_def
  Numerator_disable_s2i_presult_read_def
  Numerator_disable_s2i_result_write_def
  Numerator_enable_s2i_args_read_def
  Numerator_enable_s2i_pargs_write_def
  Numerator_enable_s2i_presult_read_def
  Numerator_enable_s2i_result_write_def

interpretation ping_rpc: rpc Numerator_ping_args_read Numerator_ping_pargs_write "()" "\<lambda>_. True" "\<lambda>_. ()"
  Numerator_ping_presult_read Numerator_ping_result_write "()" "\<lambda>_. True" "\<lambda>_. ()" "''ping''"
  by unfold_locales (simp_all add: void_structs reads_empty wire_empty)

interpretation disable_s2i_rpc: rpc Numerator_disable_s2i_args_read Numerator_disable_s2i_pargs_write "()" "\<lambda>_. True" "\<lambda>_. ()"
  Numerator_disable_s2i_presult_read Numerator_disable_s2i_result_write "()" "\<lambda>_. True" "\<lambda>_. ()" "''disable_s2i''"
  by unfold_locales (simp_all add: void_structs reads_empty wire_empty)

interpretation enable_s2i_rpc: rpc Numerator_enable_s2i_args_read Numerator_enable_s2i_pargs_write "()" "\<lambda>_. True" "\<lambda>_. ()"
  Numerator_enable_s2i_presult_read Numerator_enable_s2i_result_write "()" "\<lambda>_. True" "\<lambda>_. ()" "''enable_s2i''"
  by unfold_locales (simp_all add: void_structs reads_empty wire_empty)

definition args_marked :: "query \<Rightarrow> query_args" where
  "args_marked q = \<lparr>a_request = query_marked q, a_isset_request = True\<rparr>"

definition result_marked :: "query \<Rightarrow> query_result \<Rightarrow> query_result" where
  "result_marked ret r =
     (let fresh = Numerator_query_result_new\<lparr>r_success := ret\<rparr> in
      if r_isset_success r
      then fresh\<lparr>r_success := query_marked (r_success r), r_isset_success := True\<rparr>
      else if r_isset_exc r
      then fresh\<lparr>r_exc := (r_exc r)\<lparr>ne_isset_message := True\<rparr>, r_isset_exc := True\<rparr>
      else fresh)"

definition result_fits :: "query_result \<Rightarrow> bool" where
  "result_fits r \<longleftrightarrow> (r_isset_success r \<longrightarrow> query_fits (r_success r))"

lemma query_value_type [simp]: "vtype (query_value q) = T_STRUCT" "vtype (exception_value x) = T_STRUCT"
  by (simp_all add: query_value_def exception_value_def)

lemma reads_query_args:
  assumes "protocol_ok P" and "query_fits q"
  shows "reads P (Numerator_query_args_read P s0) (toks (VStruct m [(''request'', 1, query_value q)])) (args_marked q)"
proof -
  have "reads P (Numerator_query_args_field P T_STRUCT 1 s) (toks (query_value q)) (args_marked q)" for s
    using reads_map [OF reads_Query [OF assms, of "a_request s"],
        of "\<lambda>q. \<lparr>a_request = q, a_isset_request = True\<rparr>"]
    by (simp add: Numerator_query_args_field_def args_marked_def Query_write_value)
  then show ?thesis
    using reads_struct [OF assms(1), of "[(''request'', 1, query_value q)]"
        "Numerator_query_args_field P" "\<lambda>_ _. args_marked q" s0 m]
    by (simp add: Numerator_query_args_read_def)
qed

lemma query_args_write_value:
  "Numerator_query_args_write a = toks (VStruct ''Numerator_query_args'' [(''request'', 1, query_value (a_request a))])"
  "Numerator_query_pargs_write q = toks (VStruct ''Numerator_query_pargs'' [(''request'', 1, query_value q)])"
  by (simp_all add: Numerator_query_args_write_def Numerator_query_pargs_write_def Query_write_value)

definition result_fields :: "query_result \<Rightarrow> (string \<times> 16 word \<times> tval) list" where
  "result_fields r =
     (if r_isset_success r then [(''success'', 0, query_value (r_success r))]
      else if r_isset_exc r then [(''exc'', 1, exception_value (r_exc r))]
      else [])"

lemma query_result_write_value:
  "Numerator_query_result_write r = toks (VStruct ''Numerator_query_result'' (result_fields r))"
  by (simp add: Numerator_query_result_write_def result_fields_def Query_write_value
      NumeratorException_write_value)

lemma reads_query_result:
  assumes "protocol_ok P" and "result_fits r"
  shows "reads P (read_struct P (query_result_field P) (Numerator_query_result_new\<lparr>r_success := ret\<rparr>))
           (Numerator_query_result_write r) (result_marked ret r)"
proof -
  define upd where "upd = (\<lambda>(_ :: string \<times> 16 word \<times> tval) (s :: query_result).
      if r_isset_success r then s\<lparr>r_success := query_marked (r_success r), r_isset_success := True\<rparr>
      else s\<lparr>r_exc := (r_exc r)\<lparr>ne_isset_message := True\<rparr>, r_isset_exc := True\<rparr>)"
  have exc: "reads P (query_result_field P T_STRUCT 1 s) (toks (exception_value (r_exc r)))
      (s\<lparr>r_exc := (r_exc r)\<lparr>ne_isset_message := True\<rparr>, r_isset_exc := True\<rparr>)" for s
    using reads_map [OF reads_NumeratorException [OF assms(1), of "r_exc s" "r_exc r"],
        of "\<lambda>x. s\<lparr>r_exc := x, r_isset_exc := True\<rparr>"]
    by (simp add: query_result_field_def NumeratorException_write_value)
  have suc: "reads P (query_result_field P T_STRUCT 0 s) (toks (query_value (r_success r)))
      (s\<lparr>r_success := query_marked (r_success r), r_isset_success := True\<rparr>)" if "r_isset_success r" for s
    using reads_map [OF reads_Query [OF assms(1), of "r_success r" "r_success s"],
        of "\<lambda>q. s\<lparr>r_success := q, r_isset_success := True\<rparr>"] that assms(2)
    by (simp add: query_result_field_def Query_write_value result_fits_def)
  have "reads P (query_result_field P (vtype v) i s) (toks v) (upd (n, i, v) s)"
    if "(n, i, v) \<in> set (result_fields r)" for n i v s
    using that exc suc by (auto simp: result_fields_def upd_def split: if_splits)
  from reads_struct [OF assms(1) this, of "result_fields r"]
  have "reads P (read_struct P (query_result_field P) s) (Numerator_query_result_write r)
      (fold upd (result_fields r) s)" for s
    by (simp add: query_result_write_value)
  moreover have "fold upd (result_fields r) (Numerator_query_result_new\<lparr>r_success := ret\<rparr>) = result_marked ret r"
    by (simp add: upd_def result_fields_def result_marked_def Let_def)
  ultimately show ?thesis by metis
qed

interpretation query_rpc: rpc Numerator_query_args_read Numerator_query_pargs_write s0 query_fits args_marked
  Numerator_query_presult_read Numerator_query_result_write "Numerator_query_result_new\<lparr>r_success := ret\<rparr>"
  result_fits "result_marked ret" "''query''"
  for s0 ret
proof unfold_locales
  show "reads P (Numerator_query_args_read P s0) (Numerator_query_pargs_write a) (args_marked a)"
    if "protocol_ok P" "query_fits a" for P :: "'p tprotocol" and a
    using reads_query_args [OF that] by (simp only: query_args_write_value)
  show "concat (map wire (Numerator_query_pargs_write a)) = Numerator_query_pargs_write a" for a
    by (simp only: query_args_write_value wire_toks)
  show "reads P (Numerator_query_presult_read P (Numerator_query_result_new\<lparr>r_success := ret\<rparr>))
      (Numerator_query_result_write r) (result_marked ret r)"
    if "protocol_ok P" "result_fits r" for P :: "'p tprotocol" and r
    using reads_query_result [OF that] by (simp add: Numerator_query_presult_read_def)
  show "concat (map wire (Numerator_query_result_write r)) = Numerator_query_result_write r" for r
    by (simp only: query_result_write_value wire_toks)
qed

lemma processMap_simps [simp]:
  "processMap P what I ''ping'' = Some (process_ping P what I)"
  "processMap P what I ''query'' = Some (process_query P what I)"
  "processMap P what I ''disable_s2i'' = Some (process_disable_s2i P what I)"
  "processMap P what I ''enable_s2i'' = Some (process_enable_s2i P what I)"
  by (simp_all add: processMap_def)

lemma recv_query_result:
  assumes "protocol_ok P" and "result_fits r"
    and "pending P c2 = WMessageBegin ''query'' T_REPLY i # Numerator_query_result_write r @ [WMessageEnd]"
  shows "\<exists>c3. NumeratorClient_recv_query P ret c2 =
           (let result = result_marked ret r in
            if r_isset_success result then return (r_success result) c3
            else if r_isset_exc result then throw (Declared (r_exc result)) c3
            else throw (TApplicationException MISSING_RESULT ''query failed: unknown result'') c3)"
proof -
  obtain c3 where "then_rd (recv_header P ''query'') (read_message P (Numerator_query_presult_read P
      (Numerator_query_result_new\<lparr>r_success := ret\<rparr>))) c2 = Some (Inr (result_marked ret r, c3))"
    using query_rpc.reply_received [OF assms(1,2), of ret i] assms(3)
    unfolding reads_def by (metis append_Nil2)
  then show ?thesis
    unfolding NumeratorClient_recv_query_def then_rd_def
    by (intro exI [of _ c3]) (auto simp: bind_rd_def Let_def split: option.splits sum.splits)
qed

lemma recv_query_success:
  assumes "protocol_ok P" and "query_fits resp"
    and "pending P c2 = WMessageBegin ''query'' T_REPLY i # Numerator_query_result_write
           (Numerator_query_result_new\<lparr>r_success := resp, r_isset_success := True\<rparr>) @ [WMessageEnd]"
  shows "\<exists>c3. NumeratorClient_recv_query P ret c2 = Some (Inr (query_marked resp, c3))"
  using recv_query_result [OF assms(1) _ assms(3), of ret] assms(2)
  by (auto simp: result_fits_def result_marked_def Let_def return_def)

lemma recv_query_exception:
  assumes "protocol_ok P"
    and "pending P c2 = WMessageBegin ''query'' T_REPLY i # Numerator_query_result_write
           (Numerator_query_result_new\<lparr>r_exc := x, r_isset_exc := True\<rparr>) @ [WMessageEnd]"
  shows "NumeratorClient_recv_query P ret c2 = Some (Inl (Declared (x\<lparr>ne_isset_message := True\<rparr>)))"
  using recv_query_result [OF assms(1) _ assms(2), of ret]
  by (auto simp: result_fits_def result_marked_def Let_def throw_def Numerator_query_result_new_def)

lemma recv_query_fault:
  assumes "protocol_ok P" and "pending P c2 = [WMessageBegin n T_EXCEPTION i, WAppExc t m, WMessageEnd]"
  shows "NumeratorClient_recv_query P ret c2 = Some (Inl (TApplicationException t m))"
  using fails_first [OF fails_recv_header [OF assms(1)]] assms(2)
  unfolding NumeratorClient_recv_query_def fails_def by fastforce

text \<open>The reply that the processor sends for each way the handler can end.\<close>

fun reply_body :: "(exc \<Rightarrow> string) \<Rightarrow> query call \<Rightarrow> (message_type \<times> wcall list) option" where
  "reply_body what (Returned resp) =
     Some (T_REPLY, Numerator_query_result_write
       (Numerator_query_result_new\<lparr>r_success := resp, r_isset_success := True\<rparr>))"
| "reply_body what (ThrownNE x) =
     Some (T_REPLY, Numerator_query_result_write
       (Numerator_query_result_new\<lparr>r_exc := x, r_isset_exc := True\<rparr>))"
| "reply_body what (ThrownExc x) = Some (T_EXCEPTION, [WAppExc UNKNOWN (what x)])"
| "reply_body what (Undefined u) = None"
| "reply_body what ProcessExit = None"

lemma query_served:
  assumes "protocol_ok P" and "protocol_no_error P" and "query_fits request"
    and "pending P s0 = Numerator_query_pargs_write request @ [WMessageEnd]" and "sent P s0 = []"
    and "iface_query I Query_new (query_marked request) h = (out, h')"
    and "reply_body what out = Some (t, b)" and "\<And>resp. out = Returned resp \<Longrightarrow> query_fits resp"
  shows "\<exists>s1. NumeratorProcessor_dispatchCall P what I ''query'' seqid s0 h = (Replied s1, h') \<and>
           sent P s1 = WMessageBegin ''query'' t seqid # b @ [WMessageEnd]"
proof -
  have hdl: "query_handle I (args_marked request) h = (query_result_call out, h')"
    using assms(6) by (simp add: args_marked_def query_handle_def)
  have disp: "NumeratorProcessor_dispatchCall P what I ''query'' seqid s0 h = process_call P what ''query''
      (Numerator_query_args_read P Numerator_query_args_new) (query_handle I) seqid s0 h"
    by (simp add: NumeratorProcessor_dispatchCall_def process_query_def)
  note answered = query_rpc.answered_call [OF assms(1-3) _ assms(4,5), of _ "query_handle I" h h']
  show ?thesis
  proof (cases out)
    case (Returned resp)
    with answered [of "Numerator_query_result_new\<lparr>r_success := resp, r_isset_success := True\<rparr>"] hdl disp
      assms(7,8) show ?thesis by (fastforce simp: query_result_call_def result_fits_def)
  next
    case (ThrownNE x)
    with answered [of "Numerator_query_result_new\<lparr>r_exc := x, r_isset_exc := True\<rparr>"] hdl disp assms(7)
    show ?thesis by (fastforce simp: query_result_call_def result_fits_def Numerator_query_result_new_def)
  next
    case (ThrownExc x)
    with query_rpc.faulted_call [OF assms(1-5), of "query_handle I" h x h'] hdl disp assms(7)
    show ?thesis by (fastforce simp: query_result_call_def)
  qed (use assms(7) in simp_all)
qed

lemma query_not_served:
  assumes "protocol_ok P" and "query_fits request"
    and "pending P s0 = Numerator_query_pargs_write request @ [WMessageEnd]"
    and "iface_query I Query_new (query_marked request) h = (out, h')" and "reply_body what out = None"
  shows "NumeratorProcessor_dispatchCall P what I ''query'' seqid s0 h \<noteq> (Replied s1, h1)"
proof -
  have hdl: "query_handle I (args_marked request) h = (query_result_call out, h')"
    using assms(4) by (simp add: args_marked_def query_handle_def)
  have "out = ProcessExit \<or> (\<exists>u. out = Undefined u)" using assms(5) by (cases out) simp_all
  then show ?thesis
    using query_rpc.ended_call [OF assms(1-3), of "query_handle I", OF hdl]
    by (auto simp: NumeratorProcessor_dispatchCall_def process_query_def query_result_call_def)
qed

text \<open>The whole exchange, for every way the handler can end.\<close>

lemma query_exchange:
  assumes "protocol_ok P" and "protocol_no_error P" and "query_fits request"
    and "NumeratorClient_send_query P request c = Inr c1" and "sent P c = []"
    and "pending P s = sent P c1" and "sent P s = []"
    and "readMessageBegin P s = Inr ((fname, mtype, seqid), s0)"
    and "iface_query I Query_new (query_marked request) h = (out, h')"
  shows "mtype = T_CALL \<and>
    (case out of
       Returned resp \<Rightarrow> query_fits resp \<longrightarrow>
         (\<exists>s1. NumeratorProcessor_dispatchCall P what I fname seqid s0 h = (Replied s1, h') \<and>
            (\<forall>c2. pending P c2 = sent P s1 \<longrightarrow>
               (\<exists>c3. NumeratorClient_recv_query P ret c2 = Some (Inr (query_marked resp, c3)))))
     | ThrownNE x \<Rightarrow>
         (\<exists>s1. NumeratorProcessor_dispatchCall P what I fname seqid s0 h = (Replied s1, h') \<and>
            (\<forall>c2. pending P c2 = sent P s1 \<longrightarrow>
               NumeratorClient_recv_query P ret c2 = Some (Inl (Declared (x\<lparr>ne_isset_message := True\<rparr>)))))
     | ThrownExc x \<Rightarrow>
         (\<exists>s1. NumeratorProcessor_dispatchCall P what I fname seqid s0 h = (Replied s1, h') \<and>
            (\<forall>c2. pending P c2 = sent P s1 \<longrightarrow>
               NumeratorClient_recv_query P ret c2 = Some (Inl (TApplicationException UNKNOWN (what x)))))
     | Undefined u \<Rightarrow> NumeratorProcessor_dispatchCall P what I fname seqid s0 h = (Crashed u, h')
     | ProcessExit \<Rightarrow> NumeratorProcessor_dispatchCall P what I fname seqid s0 h = (Exited, h'))"
proof -
  have arr: "fname = ''query''" "mtype = T_CALL" "sent P s0 = []"
    "pending P s0 = Numerator_query_pargs_write request @ [WMessageEnd]"
    using query_rpc.call_arrives [OF assms(1) _ assms(5,6,8)] assms(4,7)
    by (simp_all add: NumeratorClient_send_query_def)
  have hdl: "query_handle I (args_marked request) h = (query_result_call out, h')"
    using assms(9) by (simp add: args_marked_def query_handle_def)
  have disp: "NumeratorProcessor_dispatchCall P what I fname seqid s0 h = process_call P what ''query''
      (Numerator_query_args_read P Numerator_query_args_new) (query_handle I) seqid s0 h"
    by (simp add: NumeratorProcessor_dispatchCall_def arr process_query_def)
  note served = query_served [OF assms(1-3) arr(4,3) assms(9)]
  show ?thesis
  proof (cases out)
    case (Returned resp)
    with served [where what = what and seqid = seqid] recv_query_success [OF assms(1)] arr(1,2)
    show ?thesis by fastforce
  next
    case (ThrownNE x)
    with served [where what = what and seqid = seqid] recv_query_exception [OF assms(1)] arr(1,2)
    show ?thesis by fastforce
  next
    case (ThrownExc x)
    with served [where what = what and seqid = seqid] recv_query_fault [OF assms(1)] arr(1,2)
    show ?thesis by fastforce
  next
    case (Undefined u)
    with query_rpc.ended_call(2) [OF assms(1,3) arr(4), of "query_handle I", OF hdl] disp arr(2)
    show ?thesis by (simp add: query_result_call_def)
  next
    case ProcessExit
    with query_rpc.ended_call(1) [OF assms(1,3) arr(4), of "query_handle I", OF hdl] disp arr(2)
    show ?thesis by (simp add: query_result_call_def)
  qed
qed

text \<open>The handler of the generated code that does nothing.\<close>

definition NumeratorNull :: "'h iface" where
  "NumeratorNull =
     \<lparr>iface_ping = (\<lambda>h. (Returned (), h)),
      iface_query = (\<lambda>ret request h. (Returned ret, h)),
      iface_disable_s2i = (\<lambda>h. (Returned (), h)),
      iface_enable_s2i = (\<lambda>h. (Returned (), h))\<rparr>"

section \<open>Properties\<close>

text \<open>
  C10. A query over the wire is a call of the handler.  When the client's \<open>send_query\<close> went
  through and its data reaches the server, the processor dispatches it to \<open>query\<close> with a
  fresh response object and exactly the client's request; and when the processor's answer
  reaches the client, \<open>recv_query\<close> ends the way the handler did: it returns the handler's
  response, throws the handler's \<open>NumeratorException\<close>, or throws a \<open>TApplicationException\<close>
  with the text of any other exception.  If the handler ends the process there is no answer.
\<close>

theorem query_rpc_correct:
  assumes "protocol_ok P" and "protocol_no_error P" and "query_fits request"
    and "NumeratorClient_send_query P request c = Inr c1" and "sent P c = []"
    and "pending P s = sent P c1" and "sent P s = []"
    and "readMessageBegin P s = Inr ((fname, mtype, seqid), s0)"
    and "iface_query I Query_new (query_marked request) h = (out, h')"
  shows "mtype = T_CALL \<and>
    (case out of
       Returned resp \<Rightarrow> query_fits resp \<longrightarrow>
         (\<exists>s1. NumeratorProcessor_dispatchCall P what I fname seqid s0 h = (Replied s1, h') \<and>
            (\<forall>c2. pending P c2 = sent P s1 \<longrightarrow>
               (\<exists>c3. NumeratorClient_recv_query P ret c2 = Some (Inr (query_marked resp, c3)))))
     | ThrownNE x \<Rightarrow>
         (\<exists>s1. NumeratorProcessor_dispatchCall P what I fname seqid s0 h = (Replied s1, h') \<and>
            (\<forall>c2. pending P c2 = sent P s1 \<longrightarrow>
               NumeratorClient_recv_query P ret c2 = Some (Inl (Declared (x\<lparr>ne_isset_message := True\<rparr>)))))
     | ThrownExc x \<Rightarrow>
         (\<exists>s1. NumeratorProcessor_dispatchCall P what I fname seqid s0 h = (Replied s1, h') \<and>
            (\<forall>c2. pending P c2 = sent P s1 \<longrightarrow>
               NumeratorClient_recv_query P ret c2 = Some (Inl (TApplicationException UNKNOWN (what x)))))
     | Undefined u \<Rightarrow> NumeratorProcessor_dispatchCall P what I fname seqid s0 h = (Crashed u, h')
     | ProcessExit \<Rightarrow> NumeratorProcessor_dispatchCall P what I fname seqid s0 h = (Exited, h'))"
  by (rule query_exchange [OF assms])

lemma tape_emit_all: "emit_all tape_protocol cs (a, b) = Inr (a, b @ concat (map wire cs))"
  by (induction cs arbitrary: b) (simp_all add: tape_protocol_def)

lemma tape_readMessageBegin:
  "readMessageBegin tape_protocol (WMessageBegin n t i # r, w) = Inr ((n, t, i), (r, w))"
  by (simp add: tape_protocol_def take_tok_def)

lemma tape_sent [simp]: "sent tape_protocol = snd" "pending tape_protocol = fst"
  by (simp_all add: tape_protocol_def)

lemma tape_send_query:
  "NumeratorClient_send_query tape_protocol q ([], []) =
     Inr ([], WMessageBegin ''query'' T_CALL 0 # Numerator_query_pargs_write q @ [WMessageEnd])"
  by (simp only: NumeratorClient_send_query_def tape_emit_all write_message_def
      query_args_write_value) (simp add: wire_toks del: toks.simps)

theorem query_rpc_correct_witness:
  "\<exists>s1 c3. NumeratorProcessor_dispatchCall tape_protocol (\<lambda>x. []) NumeratorNull ''query'' 0
       (Numerator_query_pargs_write Query_new @ [WMessageEnd], []) () = (Replied s1, ()) \<and>
     NumeratorClient_recv_query tape_protocol Query_new (snd s1, []) = Some (Inr (query_marked Query_new, c3))"
proof -
  let ?c1 = "([], WMessageBegin ''query'' T_CALL 0 # Numerator_query_pargs_write Query_new @ [WMessageEnd])"
  have fits: "query_fits Query_new" by (simp add: query_fits_def Query_new_def)
  have "iface_query NumeratorNull Query_new (query_marked Query_new) () = (Returned Query_new, ())"
    by (simp add: NumeratorNull_def)
  from query_rpc_correct [where what = "\<lambda>x. []" and ret = Query_new,
      OF tape_protocol_ok tape_protocol_no_error fits tape_send_query _ _ _ tape_readMessageBegin this]
  show ?thesis using fits by fastforce
qed

lemma reads_discard:
  assumes "protocol_ok P" and "vtype v = T_STRUCT" and "vdepth v \<le> skip_depth"
  shows "reads P (discard P) (toks v @ [WMessageEnd]) ()"
proof -
  have "reads P (then_rd (call (readMessageEnd P)) (call (readEnd P))) [WMessageEnd] ()"
    by (intro reads_then_cons [OF protocol_reads(2)] protocol_reads(3) assms(1))
  with protocol_reads(14) [OF assms(1,3)] show ?thesis
    unfolding discard_def assms(2) by (rule reads_then)
qed

text \<open>
  A call of a method that the service does not have: the processor passes over its
  arguments, whatever struct they are, leaves the handler alone and answers with a
  \<open>TApplicationException\<close> that names the method; a client that waits for this method's reply
  throws it.
\<close>

theorem unknown_method:
  assumes "protocol_ok P" and "protocol_no_error P"
    and "fname \<notin> {''ping'', ''query'', ''disable_s2i'', ''enable_s2i''}"
    and "pending P s = toks (VStruct n fs) @ [WMessageEnd]" and "vdepth (VStruct n fs) \<le> skip_depth"
    and "sent P s = []"
  shows "\<exists>s1. NumeratorProcessor_dispatchCall P what I fname seqid s h = (Replied s1, h) \<and>
           (\<forall>c2. pending P c2 = sent P s1 \<longrightarrow>
              recv_header P fname c2 = Some (Inl (TApplicationException UNKNOWN_METHOD
                (''Invalid method name: '' @ [CHR 0x27] @ fname @ [CHR 0x27]))))"
proof -
  have none: "processMap P what I fname = None" using assms(3) by (simp add: processMap_def)
  obtain s0 where s0: "discard P s = Some (Inr ((), s0))" "sent P s0 = []"
    using reads_discard [OF assms(1) _ assms(5)] assms(4,6) unfolding reads_def
    by (metis append_Nil2 vtype.simps(5))
  let ?m = "''Invalid method name: '' @ [CHR 0x27] @ fname @ [CHR 0x27]"
  let ?msg = "write_message fname T_EXCEPTION seqid [WAppExc UNKNOWN_METHOD ?m]"
  obtain s1 where s1: "emit_all P ?msg s0 = Inr s1" using emit_all_returns [OF assms(2)] by blast
  have "sent P s1 = [WMessageBegin fname T_EXCEPTION seqid, WAppExc UNKNOWN_METHOD ?m, WMessageEnd]"
    using emit_all_sent [OF assms(1) s1] s0(2) by (simp add: write_message_def)
  then have "recv_header P fname c2 = Some (Inl (TApplicationException UNKNOWN_METHOD ?m))"
    if "pending P c2 = sent P s1" for c2
    using fails_recv_header [OF assms(1)] that unfolding fails_def by (metis append_Nil2)
  then show ?thesis
    using none s0(1) s1 by (simp add: NumeratorProcessor_dispatchCall_def reply_msg_def)
qed

theorem unknown_method_witness:
  "\<exists>s1. NumeratorProcessor_dispatchCall tape_protocol (\<lambda>x. []) NumeratorNull ''reset'' 7
       ([WStructBegin ''reset_args'', WFieldStop, WStructEnd, WMessageEnd], []) () = (Replied s1, ()) \<and>
     recv_header tape_protocol ''reset'' (snd s1, []) =
       Some (Inl (TApplicationException UNKNOWN_METHOD (''Invalid method name: '' @ [CHR 0x27] @ ''reset'' @ [CHR 0x27])))"
  using unknown_method [where P = tape_protocol and fname = "''reset''" and n = "''reset_args''" and fs = "[]"
      and s = "([WStructBegin ''reset_args'', WFieldStop, WStructEnd, WMessageEnd], [])"
      and what = "\<lambda>x. []" and I = NumeratorNull and seqid = 7 and h = "()"]
  by (auto simp: skip_depth_def)

end
