(* ===== verification/Rpc_Server.thy ===== *)
theory Rpc_Server
  imports Server Thrift_Service
begin

text \<open>
  The whole system: the generated client, a connection, the generated processor and the
  handler of numerator.cpp behind it.
\<close>

definition numerator_iface :: "'j judy \<Rightarrow> 'db leveldb \<Rightarrow> num_id \<Rightarrow> ('j, 'db) server iface" where
  "numerator_iface J L junk =
     \<lparr>iface_ping = NumeratorHandler_ping,
      iface_query = NumeratorHandler_query J L,
      iface_disable_s2i = NumeratorHandler_disable_s2i J,
      iface_enable_s2i = NumeratorHandler_enable_s2i J L junk\<rparr>"

text \<open>
  One query of a client, from its \<open>send\<close> to the end of its \<open>recv\<close>, while the server goes from
  \<open>h\<close> to \<open>h'\<close>: what was sent arrives at the other side, in both directions.
\<close>

definition wire_query ::
  "'p tprotocol \<Rightarrow> (exc \<Rightarrow> string) \<Rightarrow> 'h iface \<Rightarrow> query \<Rightarrow> query \<Rightarrow> 'h \<Rightarrow> texc + query \<Rightarrow> 'h \<Rightarrow> bool" where
  "wire_query P what I ret request h res h' \<longleftrightarrow>
     (\<exists>c c1 s fname mtype seqid s0 s1 c2 r.
        sent P c = [] \<and> NumeratorClient_send_query P request c = Inr c1 \<and>
        pending P s = sent P c1 \<and> sent P s = [] \<and>
        readMessageBegin P s = Inr ((fname, mtype, seqid), s0) \<and>
        NumeratorProcessor_dispatchCall P what I fname seqid s0 h = (Replied s1, h') \<and>
        pending P c2 = sent P s1 \<and>
        NumeratorClient_recv_query P ret c2 = Some r \<and> map_sum id fst r = res)"

text \<open>What the client sees of the handler's outcome.\<close>

fun wire_outcome :: "(exc \<Rightarrow> string) \<Rightarrow> query call \<Rightarrow> (texc + query) option" where
  "wire_outcome what (Returned resp) = Some (Inr (query_marked resp))"
| "wire_outcome what (ThrownNE x) = Some (Inl (Declared (x\<lparr>ne_isset_message := True\<rparr>)))"
| "wire_outcome what (ThrownExc x) = Some (Inl (TApplicationException UNKNOWN (what x)))"
| "wire_outcome what (Undefined u) = None"
| "wire_outcome what ProcessExit = None"

lemma wire_query_outcome:
  assumes "protocol_ok P" and "protocol_no_error P" and "query_fits request"
    and "wire_query P what I ret request h res h'"
    and "iface_query I Query_new (query_marked request) h = (out, h1)"
    and "\<And>resp. out = Returned resp \<Longrightarrow> query_fits resp"
  shows "h' = h1 \<and> wire_outcome what out = Some res"
proof -
  obtain c c1 s fname mtype seqid s0 s1 c2 r where w: "sent P c = []"
    "NumeratorClient_send_query P request c = Inr c1" "pending P s = sent P c1" "sent P s = []"
    "readMessageBegin P s = Inr ((fname, mtype, seqid), s0)"
    and d: "NumeratorProcessor_dispatchCall P what I fname seqid s0 h = (Replied s1, h')"
      "pending P c2 = sent P s1" "NumeratorClient_recv_query P ret c2 = Some r" "map_sum id fst r = res"
    using assms(4) unfolding wire_query_def by blast
  note ex = query_exchange [OF assms(1-3) w(2,1,3,4,5) assms(5), of what ret]
  show ?thesis
  proof (cases out)
    case (Returned resp)
    with ex assms(6) d show ?thesis by fastforce
  next
    case (ThrownNE x)
    with ex d show ?thesis by fastforce
  next
    case (ThrownExc x)
    with ex d show ?thesis by fastforce
  qed (use ex d in simp_all)
qed

text \<open>The handler looks at the four fields of a request only, not at their flags.\<close>

lemma query_marked_simps [simp]:
  "q_op (query_marked q) = q_op q" "q_strings (query_marked q) = q_strings q"
  "q_ids (query_marked q) = q_ids q" "q_failures (query_marked q) = q_failures q"
  by (simp_all add: query_marked_def)

lemma handler_marked [simp]:
  "iface_query (numerator_iface J L junk) ret (query_marked q) h = NumeratorHandler_query J L ret q h"
  unfolding numerator_iface_def iface.simps NumeratorHandler_query_def query_impl_def query_marked_simps
  by (rule refl)

lemma s2i_query_shape:
  assumes "libs_ok J L" and "server_inv J L h" and "\<not> disable_s2i_queries h" and "q_op q = STR2ID"
    and "NumeratorHandler_query J L Query_new q h = (Returned resp, h')"
  shows "q_strings resp = [] \<and> length (q_ids resp) = length (q_strings q) \<and> q_failures resp = []"
proof -
  have q: "query_impl (ms_find J) (ds_write L) (ds_lookup L) Query_new q h = (Returned resp, h')"
    using query_answered [OF assms(5)] by simp
  from svc.s2i_step [OF libs_okD(1,2) [OF assms(1)] server_inv_coherent [OF assms(2,3)] assms(3,4) q]
  show ?thesis by (auto simp: Query_new_def)
qed

section \<open>Exchanges over the concrete protocol, for the witnesses\<close>

lemma tape_wire_query:
  assumes "query_fits q" and "iface_query I Query_new (query_marked q) h = (out, h')"
    and "\<And>resp. out = Returned resp \<Longrightarrow> query_fits resp" and "wire_outcome what out = Some res"
  shows "wire_query tape_protocol what I ret q h res h'"
proof -
  let ?body = "Numerator_query_pargs_write q @ [WMessageEnd]"
  let ?c1 = "([], WMessageBegin ''query'' T_CALL 0 # ?body)"
  note ex = query_exchange [where what = what and ret = ret and s = "(snd ?c1, [])" and ?s0.0 = "(?body, [])",
      OF tape_protocol_ok tape_protocol_no_error assms(1) tape_send_query _ _ _ _ assms(2)]
  have "\<exists>s1 r. NumeratorProcessor_dispatchCall tape_protocol what I ''query'' 0 (?body, []) h = (Replied s1, h') \<and>
      NumeratorClient_recv_query tape_protocol ret (snd s1, []) = Some r \<and> map_sum id fst r = res"
    using ex [of "''query''" T_CALL 0] assms(3,4) by (cases out) (fastforce simp: tape_readMessageBegin)+
  then show ?thesis
    unfolding wire_query_def using tape_send_query [of q] tape_readMessageBegin [of "''query''" T_CALL 0 ?body "[]"]
    by (metis fst_conv snd_conv tape_sent)
qed

section \<open>Properties\<close>

text \<open>
  C9. The service end to end: a client sends strings and gets a response; whoever then sends
  the ids of this response back gets a response too, with exactly the strings of the first
  request, in order and without failures.  Between the two the whole path is covered: the
  client's and the server's generated code, the handler, the index and the database.  (The
  protocol, the index library and the database keep their contracts and report no errors, and
  no string has a NUL.)
\<close>

theorem wire_roundtrip:
  assumes "protocol_ok P" and "protocol_no_error P" and "libs_ok J L" and "libs_no_error J L"
    and "server_inv J L h" and "\<not> disable_s2i_queries h" and "nul_free_table (srv_tab L h)"
    and "q = Query_new\<lparr>q_op := STR2ID, q_strings := ss\<rparr>"
    and "length ss < 2 ^ 31" and "\<forall>s \<in> set ss. nul_free s"
    and "wire_query P what (numerator_iface J L junk) ret q h (Inr resp) h1"
    and "wire_query P what (numerator_iface J L junk) ret'
           (Query_new\<lparr>q_op := ID2STR, q_ids := q_ids resp\<rparr>) h1 res h2"
  shows "\<exists>resp2. res = Inr resp2 \<and> q_strings resp2 = ss \<and> q_failures resp2 = [] \<and> h2 = h1"
proof -
  have q: "q_op q = STR2ID" "q_strings q = ss" "query_fits q"
    using assms(8,9) by (simp_all add: query_fits_def Query_new_def)
  obtain out ho where out: "NumeratorHandler_query J L Query_new q h = (out, ho)" by fastforce
  have fits: "query_fits r \<and> length (q_ids r) = length ss" if "out = Returned r" for r
    using s2i_query_shape [OF assms(3,5,6) q(1)] out that q(2) assms(9) by (auto simp: query_fits_def)
  have "h1 = ho \<and> wire_outcome what out = Some (Inr resp)"
    by (rule wire_query_outcome [OF assms(1,2) q(3) assms(11)]) (use out fits in simp_all)
  then obtain r where r: "out = Returned r" "h1 = ho" "resp = query_marked r"
    by (cases out) auto
  let ?q2 = "Query_new\<lparr>q_op := ID2STR, q_ids := q_ids r\<rparr>"
  have inv: "NumeratorHandler_query J L Query_new ?q2 ho =
      (Returned (Query_new\<lparr>q_op := ID2STR, q_strings := q_strings q\<rparr>), ho)"
    by (rule i2s_inverts_s2i [OF assms(3-6) q(1) _ out [unfolded r(1)] assms(7)])
       (use q(2) assms(9,10) in simp_all)
  let ?r2 = "Query_new\<lparr>q_op := ID2STR, q_strings := q_strings q\<rparr>"
  have w2: "wire_query P what (numerator_iface J L junk) ret' ?q2 ho res h2" using assms(12) r by simp
  have fits2: "query_fits ?q2" "query_fits ?r2"
    using fits [OF r(1)] q(2) assms(9) by (simp_all add: query_fits_def Query_new_def)
  have "h2 = ho \<and> wire_outcome what (Returned ?r2) = Some res"
    by (rule wire_query_outcome [OF assms(1,2) fits2(1) w2]) (use inv fits2(2) in simp_all)
  then show ?thesis using q(2) r(2) by (auto simp: query_marked_def Query_new_def)
qed

theorem wire_roundtrip_witness:
  "\<exists>resp2. wire_query tape_protocol (\<lambda>x. []) (numerator_iface alist_judy alist_db 0) Query_new
     (Query_new\<lparr>q_op := ID2STR, q_ids := [1, 2]\<rparr>) demo_server (Inr resp2) demo_server \<and>
     q_strings resp2 = [''A'', ''B'']"
proof -
  let ?I = "numerator_iface alist_judy alist_db 0"
  let ?r = "Query_new\<lparr>q_op := STR2ID, q_ids := [1, 2]\<rparr>"
  let ?q2 = "Query_new\<lparr>q_op := ID2STR, q_ids := [1, 2]\<rparr>"
  let ?r2 = "Query_new\<lparr>q_op := ID2STR, q_strings := [''A'', ''B'']\<rparr>"
  have fits: "query_fits demo_query" "query_fits ?r" "query_fits ?q2" "query_fits ?r2"
    by (simp_all add: query_fits_def demo_query_def Query_new_def)
  have w1: "wire_query tape_protocol (\<lambda>x. []) ?I Query_new demo_query empty_server
      (Inr (query_marked ?r)) demo_server"
    by (rule tape_wire_query [where out = "Returned ?r"]) (use fits demo_query_reply in simp_all)
  have handler: "NumeratorHandler_query alist_judy alist_db Query_new ?q2 demo_server = (Returned ?r2, demo_server)"
    by (simp add: NumeratorHandler_query_def query_catch_def query_impl_def Query_new_def demo_server_def
        ds_lookup_def alist_db_def ds_new_def max_failure_idx_def)
  have w2: "wire_query tape_protocol (\<lambda>x. []) ?I Query_new ?q2 demo_server (Inr (query_marked ?r2)) demo_server"
    by (rule tape_wire_query [where out = "Returned ?r2"]) (use fits handler in simp_all)
  have "nul_free_table (srv_tab alist_db empty_server)" by (simp add: nul_free_table_def)
  moreover have "\<forall>s \<in> set [''A'', ''B'']. nul_free s" by (simp add: nul_free_def)
  moreover have "?q2 = Query_new\<lparr>q_op := ID2STR, q_ids := q_ids (query_marked ?r)\<rparr>" by simp
  ultimately show ?thesis
    using wire_roundtrip [OF tape_protocol_ok tape_protocol_no_error libs_ok_alist empty_server_inv _ _
        demo_query_def _ _ w1, of Query_new "Inr (query_marked ?r2)" demo_server] w2
    by auto
qed


text \<open>
  A client of a server whose string-to-id queries are disabled gets the declared
  exception: \<open>recv_query\<close> throws a \<open>NumeratorException\<close> with the code
  \<open>STR2ID_QUERIES_DISABLED\<close> and the handler's message, and the server is unchanged.
\<close>

theorem wire_disabled:
  assumes "protocol_ok P" and "protocol_no_error P" and "disable_s2i_queries h"
    and "q_op q = STR2ID" and "query_fits q"
    and "wire_query P what (numerator_iface J L junk) ret q h res h1"
  shows "\<exists>x. res = Inl (Declared x) \<and> ne_code x = STR2ID_QUERIES_DISABLED \<and>
           ne_message x = ''string -> id service disabled'' \<and> h1 = h"
proof -
  have "NumeratorHandler_query J L Query_new q h = (ThrownNE s2i_disabled_exception, h)"
    using assms(3,4) by (simp add: NumeratorHandler_query_def query_catch_def query_impl_def)
  then have "h1 = h \<and> wire_outcome what (ThrownNE s2i_disabled_exception) = Some res"
    using wire_query_outcome [OF assms(1,2,5,6), of "ThrownNE s2i_disabled_exception" h] by simp
  then show ?thesis by (auto simp: s2i_disabled_exception_def)
qed

theorem wire_disabled_witness:
  "\<exists>x. wire_query tape_protocol (\<lambda>x. []) (numerator_iface alist_judy alist_db 0) Query_new demo_query
     (demo_server\<lparr>disable_s2i_queries := True\<rparr>) (Inl (Declared x)) (demo_server\<lparr>disable_s2i_queries := True\<rparr>) \<and>
     ne_code x = STR2ID_QUERIES_DISABLED"
proof -
  let ?h = "demo_server\<lparr>disable_s2i_queries := True\<rparr>"
  have q: "query_fits demo_query" "q_op demo_query = STR2ID"
    by (simp_all add: query_fits_def demo_query_def Query_new_def)
  have "NumeratorHandler_query alist_judy alist_db Query_new demo_query ?h = (ThrownNE s2i_disabled_exception, ?h)"
    using q(2) by (simp add: NumeratorHandler_query_def query_catch_def query_impl_def)
  then have w: "wire_query tape_protocol (\<lambda>x. []) (numerator_iface alist_judy alist_db 0) Query_new demo_query ?h
      (Inl (Declared (s2i_disabled_exception\<lparr>ne_isset_message := True\<rparr>))) ?h"
    using q(1) by (intro tape_wire_query [where out = "ThrownNE s2i_disabled_exception"]) simp_all
  from wire_disabled [OF tape_protocol_ok tape_protocol_no_error _ q(2,1) w] w show ?thesis by auto
qed


text \<open>The failures of an answer are positions in it, in order, of entries that are empty.\<close>

lemma lookup_failures_shape:
  assumes "length keys < 2 ^ 32"
  shows "length (lookup_failures tab 0 keys) \<le> length keys" and "distinct (lookup_failures tab 0 keys)"
    and "sorted (map unat (lookup_failures tab 0 keys))"
    and "f \<in> set (lookup_failures tab 0 keys) \<Longrightarrow>
         unat f < length keys \<and> lookup_values tab keys ! unat f = []"
proof -
  let ?is = "filter (\<lambda>i. tab (keys ! i) = None) [0..<length keys]"
  have u: "unat (of_nat i :: failure_idx) = i" if "i \<in> set ?is" for i
    using that assms by (simp add: unsigned_of_nat take_bit_nat_eq_self)
  have eq: "lookup_failures tab 0 keys = map of_nat ?is" by (simp add: lookup_failures_def)
  have unats: "map unat (lookup_failures tab 0 keys) = ?is"
    unfolding eq map_map by (rule map_idI) (simp only: comp_def u)
  show "length (lookup_failures tab 0 keys) \<le> length keys"
    unfolding eq using length_filter_le [of _ "[0..<length keys]"] by simp
  show "distinct (lookup_failures tab 0 keys)" using unats distinct_map [of unat] by (metis distinct_filter distinct_upt)
  show "sorted (map unat (lookup_failures tab 0 keys))" unfolding unats by (simp add: sorted_wrt_filter)
  assume "f \<in> set (lookup_failures tab 0 keys)"
  then have "unat f \<in> set ?is" unfolding unats [symmetric] by simp
  then show "unat f < length keys \<and> lookup_values tab keys ! unat f = []" by (simp add: lookup_values_def)
qed

lemma i2s_query_shape:
  assumes "libs_ok J L" and "q_op q = ID2STR" and "NumeratorHandler_query J L Query_new q h = (Returned resp, h')"
  shows "resp = Query_new\<lparr>q_op := ID2STR, q_strings := lookup_values (srv_tab L h) (q_ids q),
           q_failures := lookup_failures (srv_tab L h) 0 (q_ids q)\<rparr>"
proof -
  have q: "query_impl (ms_find J) (ds_write L) (ds_lookup L) Query_new q h = (Returned resp, h')"
    using query_answered [OF assms(3)] by simp
  with assms(2) obtain vs fs where l: "ds_lookup L (disk_storage h) (q_ids q) = Inr (vs, fs)"
    "resp = Query_new\<lparr>q_strings := vs, q_failures := fs, q_op := ID2STR\<rparr>"
    by (cases "ds_lookup L (disk_storage h) (q_ids q)") (auto simp: query_impl_def elim: raise.elims)
  from disk.lookup_tab [OF libs_okD(2) [OF assms(1)] l(1)] l(2) show ?thesis by simp
qed

text \<open>
  C17. Every answer has the right shape.  On a good server, the response to a request that fits
  the protocol fits it too and names the request's operation.  A string-to-id response has one
  id per string and nothing else; an id-to-string response has one string per id, no ids, and
  failures that are different positions in it, in increasing order, whose strings are empty.
\<close>

theorem response_well_formed:
  assumes "libs_ok J L" and "server_inv J L h" and "query_fits q"
    and "NumeratorHandler_query J L Query_new q h = (Returned resp, h')"
  shows "query_fits resp \<and> q_op resp = q_op q \<and>
    (q_op q = STR2ID \<longrightarrow> length (q_ids resp) = length (q_strings q) \<and> q_strings resp = [] \<and> q_failures resp = []) \<and>
    (q_op q = ID2STR \<longrightarrow> length (q_strings resp) = length (q_ids q) \<and> q_ids resp = [] \<and>
       distinct (q_failures resp) \<and> sorted (map unat (q_failures resp)) \<and>
       (\<forall>f \<in> set (q_failures resp). unat f < length (q_strings resp) \<and> q_strings resp ! unat f = []))"
proof -
  have q: "query_impl (ms_find J) (ds_write L) (ds_lookup L) Query_new q h = (Returned resp, h')"
    using query_answered [OF assms(4)] by simp
  consider "q_op q = STR2ID" | "q_op q = ID2STR" | "q_op q \<noteq> STR2ID" "q_op q \<noteq> ID2STR" by blast
  then show ?thesis
  proof cases
    case 1
    have "\<not> disable_s2i_queries h" using q 1 by (auto simp: query_impl_def)
    from s2i_query_shape [OF assms(1,2) this 1 assms(4)] 1 q assms(3) show ?thesis
      by (auto simp: query_fits_def query_impl_def Let_def split: if_splits prod.splits sum.splits elim: raise.elims)
  next
    case 2
    have n: "length (q_ids q) < 2 ^ 32" using assms(3) by (simp add: query_fits_def)
    have len: "length (lookup_values (srv_tab L h) (q_ids q)) = length (q_ids q)" by (simp add: lookup_values_def)
    note shape = lookup_failures_shape [OF n, where tab = "srv_tab L h"]
    show ?thesis unfolding i2s_query_shape [OF assms(1) 2 assms(4)]
      using 2 n len shape by (simp add: query_fits_def Query_new_def)
  next
    case 3
    with q show ?thesis by (auto simp: query_impl_def query_fits_def Query_new_def)
  qed
qed

theorem response_well_formed_witness:
  "\<exists>resp h'. NumeratorHandler_query alist_judy alist_db Query_new
       (Query_new\<lparr>q_op := ID2STR, q_ids := [9, 1, 8]\<rparr>) demo_server = (Returned resp, h') \<and>
     query_fits resp \<and> q_strings resp = [[], ''A'', []] \<and> q_failures resp = [0, 2] \<and>
     sorted (map unat (q_failures resp))"
proof -
  let ?q = "Query_new\<lparr>q_op := ID2STR, q_ids := [9, 1, 8]\<rparr>"
  obtain resp h' where r: "NumeratorHandler_query alist_judy alist_db Query_new ?q demo_server = (Returned resp, h')"
    "q_strings resp = [[], ''A'', []]" "q_failures resp = [0, 2]"
    by (simp add: NumeratorHandler_query_def query_catch_def query_impl_def Query_new_def demo_server_def
        ds_lookup_def alist_db_def ds_new_def max_failure_idx_def)
  have "query_fits ?q" by (simp add: query_fits_def Query_new_def)
  from response_well_formed [OF libs_ok_alist(1) demo_server_inv this r(1)] r show ?thesis by auto
qed

end
