(* ===== verification/Std_Stream.thy ===== *)
theory Std_Stream
  imports Prelude
begin

text \<open>
  The part of \<open>std::ifstream\<close> that the program uses: the bytes that are still to come, the
  three state bits, \<open>read\<close> and \<open>std::getline\<close>.  \<open>broken\<close> says how the file ends once \<open>rest\<close>
  is used up: with the end of the file, or with a read error of the underlying file, which
  the stream turns into \<open>badbit\<close> and never into \<open>eofbit\<close>.
\<close>

record istream =
  rest :: string
  broken :: bool
  eofbit :: bool
  failbit :: bool
  badbit :: bool

text \<open>The size of a stream is what is still to be read of it; loops over a stream end by it.\<close>

instantiation istream_ext :: (type) size
begin

definition size_istream_ext :: "'a istream_ext \<Rightarrow> nat" where
  size_istream [simp]: "size s = length (rest s)"

instance ..

end

definition open_stream :: "string \<Rightarrow> istream" where
  "open_stream s = \<lparr>rest = s, broken = False, eofbit = False, failbit = False, badbit = False\<rparr>"

definition good :: "istream \<Rightarrow> bool" where
  "good s \<longleftrightarrow> \<not> eofbit s \<and> \<not> failbit s \<and> \<not> badbit s"

text \<open>
  \<open>read(p, n)\<close>: the bytes stored at \<open>p\<close> and the stream afterwards.  On a stream that is not
  good nothing is stored and \<open>failbit\<close> is set.
\<close>

definition stream_read :: "nat \<Rightarrow> istream \<Rightarrow> string \<times> istream" where
  "stream_read n s =
     (if \<not> good s then ([], s\<lparr>failbit := True\<rparr>)
      else if n \<le> length (rest s) then (take n (rest s), s\<lparr>rest := drop n (rest s)\<rparr>)
      else if broken s then (rest s, s\<lparr>rest := [], badbit := True\<rparr>)
      else (rest s, s\<lparr>rest := [], eofbit := True, failbit := True\<rparr>))"

definition newline :: char where "newline = CHR 0x0A"
definition tab :: char where "tab = CHR 0x09"

text \<open>
  \<open>std::getline(s, line)\<close>: whether the stream converts to \<open>true\<close> afterwards, the line, and
  the stream.  A last line without a newline is still a line; it sets \<open>eofbit\<close> alone.
\<close>

definition getline :: "istream \<Rightarrow> bool \<times> string \<times> istream" where
  "getline s =
     (if \<not> good s then (False, [], s\<lparr>failbit := True\<rparr>)
      else
        let l = takeWhile (\<lambda>c. c \<noteq> newline) (rest s) in
        if length l < length (rest s)
        then (True, l, s\<lparr>rest := drop (Suc (length l)) (rest s)\<rparr>)
        else if broken s then (False, l, s\<lparr>rest := [], badbit := True\<rparr>)
        else if l = [] then (False, [], s\<lparr>eofbit := True, failbit := True\<rparr>)
        else (True, l, s\<lparr>rest := [], eofbit := True\<rparr>))"

lemma open_stream_simps [simp]:
  "rest (open_stream s) = s" "broken (open_stream s) = False" "eofbit (open_stream s) = False"
  "good (open_stream s)"
  by (simp_all add: open_stream_def good_def)

lemma stream_read_broken [simp]: "broken (snd (stream_read n s)) = broken s"
  by (simp add: stream_read_def)

text \<open>A read that the stream can serve in full.\<close>

lemma stream_read_full:
  "good s \<Longrightarrow> length a = n \<Longrightarrow> rest s = a @ b \<Longrightarrow> stream_read n s = (a, s\<lparr>rest := b\<rparr>)"
  by (simp add: stream_read_def)

lemma good_rest_update [simp]: "good (s\<lparr>rest := r\<rparr>) = good s"
  by (simp add: good_def)

lemma stream_read_not_good [simp]: "\<not> good s \<Longrightarrow> stream_read n s = ([], s\<lparr>failbit := True\<rparr>)"
  by (simp add: stream_read_def)

lemma stream_read_rest: "size (snd (stream_read n s)) \<le> size s"
  by (simp add: stream_read_def)

text \<open>A stream that reports read errors never reaches the end of the file.\<close>

lemma stream_read_broken_eof:
  "broken s \<Longrightarrow> eofbit (snd (stream_read n s)) = eofbit s"
  by (simp add: stream_read_def)

text \<open>Without read errors, a stream that is not good is at its end.\<close>

definition sane :: "istream \<Rightarrow> bool" where
  "sane s \<longleftrightarrow> \<not> broken s \<and> \<not> badbit s \<and> (failbit s \<longrightarrow> eofbit s)"

lemma sane_good: "sane s \<Longrightarrow> good s \<longleftrightarrow> \<not> eofbit s"
  by (auto simp: sane_def good_def)

lemma sane_open [simp]: "sane (open_stream s)"
  by (simp add: sane_def open_stream_def)

lemma stream_read_sane: "sane s \<Longrightarrow> sane (snd (stream_read n s))"
  by (auto simp: sane_def stream_read_def good_def)

lemma stream_read_eof_mono: "eofbit s \<Longrightarrow> eofbit (snd (stream_read n s))"
  by (simp add: stream_read_def good_def)

lemma stream_read_shrinks:
  assumes "sane s" and "\<not> eofbit (snd (stream_read n s))"
  shows "size (snd (stream_read n s)) + n = size s"
proof -
  have "good s" using assms stream_read_eof_mono sane_good by blast
  then show ?thesis
    using assms by (auto simp: stream_read_def sane_def split: if_splits)
qed

lemma getline_shrinks:
  "getline s = (True, l, s') \<Longrightarrow> size s' < size s"
  by (auto simp: getline_def Let_def split: if_splits)

lemma getline_line:
  assumes "good s" and "newline \<notin> set l" and "rest s = l @ newline # r"
  shows "getline s = (True, l, s\<lparr>rest := r\<rparr>)"
proof -
  have "takeWhile (\<lambda>c. c \<noteq> newline) (rest s) = l"
    using assms(2,3) by (induction l arbitrary: s) (auto simp: takeWhile_append)
  then show ?thesis using assms by (simp add: getline_def Let_def)
qed

lemma getline_end:
  "good s \<Longrightarrow> \<not> broken s \<Longrightarrow> rest s = [] \<Longrightarrow> fst (getline s) = False"
  by (simp add: getline_def)

end
