(* ===== verification/Service_Glue.thy ===== *)
theory Service_Glue
  imports Rpc_Server Std_Stream
begin

text \<open>
  The rest of gen-cpp/Numerator.h: the factories of handlers and processors and the handler
  that passes every call on to several others, and the example handler of
  gen-cpp/Numerator\_server.skeleton.cpp.
\<close>

section \<open>Comparison of the structs of the service\<close>

definition Numerator_query_args_eq :: "query_args \<Rightarrow> query_args \<Rightarrow> bool" where
  "Numerator_query_args_eq a b \<longleftrightarrow>
     (if \<not> Query_eq (a_request a) (a_request b) then False else True)"

definition Numerator_query_args_neq :: "query_args \<Rightarrow> query_args \<Rightarrow> bool" where
  "Numerator_query_args_neq a b \<longleftrightarrow> \<not> Numerator_query_args_eq a b"

definition Numerator_query_result_eq :: "query_result \<Rightarrow> query_result \<Rightarrow> bool" where
  "Numerator_query_result_eq a b \<longleftrightarrow>
     (if \<not> Query_eq (r_success a) (r_success b) then False
      else if \<not> NumeratorException_eq (r_exc a) (r_exc b) then False
      else True)"

definition Numerator_query_result_neq :: "query_result \<Rightarrow> query_result \<Rightarrow> bool" where
  "Numerator_query_result_neq a b \<longleftrightarrow> \<not> Numerator_query_result_eq a b"

text \<open>Structs without fields are \<open>unit\<close>, and any two of them are equal.\<close>

definition Numerator_ping_args_eq :: "unit \<Rightarrow> unit \<Rightarrow> bool" where
  "Numerator_ping_args_eq a rhs \<longleftrightarrow> True"

definition Numerator_ping_args_neq :: "unit \<Rightarrow> unit \<Rightarrow> bool" where
  "Numerator_ping_args_neq a rhs \<longleftrightarrow> \<not> Numerator_ping_args_eq a rhs"

definition Numerator_ping_result_eq :: "unit \<Rightarrow> unit \<Rightarrow> bool" where
  "Numerator_ping_result_eq a rhs \<longleftrightarrow> True"

definition Numerator_ping_result_neq :: "unit \<Rightarrow> unit \<Rightarrow> bool" where
  "Numerator_ping_result_neq a rhs \<longleftrightarrow> \<not> Numerator_ping_result_eq a rhs"

definition Numerator_disable_s2i_args_eq :: "unit \<Rightarrow> unit \<Rightarrow> bool" where
  "Numerator_disable_s2i_args_eq a rhs \<longleftrightarrow> True"

definition Numerator_disable_s2i_args_neq :: "unit \<Rightarrow> unit \<Rightarrow> bool" where
  "Numerator_disable_s2i_args_neq a rhs \<longleftrightarrow> \<not> Numerator_disable_s2i_args_eq a rhs"

definition Numerator_disable_s2i_result_eq :: "unit \<Rightarrow> unit \<Rightarrow> bool" where
  "Numerator_disable_s2i_result_eq a rhs \<longleftrightarrow> True"

definition Numerator_disable_s2i_result_neq :: "unit \<Rightarrow> unit \<Rightarrow> bool" where
  "Numerator_disable_s2i_result_neq a rhs \<longleftrightarrow> \<not> Numerator_disable_s2i_result_eq a rhs"

definition Numerator_enable_s2i_args_eq :: "unit \<Rightarrow> unit \<Rightarrow> bool" where
  "Numerator_enable_s2i_args_eq a rhs \<longleftrightarrow> True"

definition Numerator_enable_s2i_args_neq :: "unit \<Rightarrow> unit \<Rightarrow> bool" where
  "Numerator_enable_s2i_args_neq a rhs \<longleftrightarrow> \<not> Numerator_enable_s2i_args_eq a rhs"

definition Numerator_enable_s2i_result_eq :: "unit \<Rightarrow> unit \<Rightarrow> bool" where
  "Numerator_enable_s2i_result_eq a rhs \<longleftrightarrow> True"

definition Numerator_enable_s2i_result_neq :: "unit \<Rightarrow> unit \<Rightarrow> bool" where
  "Numerator_enable_s2i_result_neq a rhs \<longleftrightarrow> \<not> Numerator_enable_s2i_result_eq a rhs"

text \<open>
  Equality of the generated structs is an equivalence, but no congruence for writing: a result
  that carries a response equals one that carries nothing, and only the first is sent in full.
\<close>

lemma Numerator_query_result_eq_equivp: "equivp Numerator_query_result_eq"
  by (rule equivpI) (auto simp: reflp_def symp_def transp_def Numerator_query_result_eq_def
      Query_eq_def NumeratorException_eq_def split: if_splits)

lemma equal_results_differ_on_the_wire:
  assumes "r_isset_success r"
  shows "Numerator_query_result_eq r (r\<lparr>r_isset_success := False\<rparr>) \<and>
         Numerator_query_result_write r \<noteq> Numerator_query_result_write (r\<lparr>r_isset_success := False\<rparr>)"
  using assms by (simp add: Numerator_query_result_eq_def Query_eq_def NumeratorException_eq_def
      Numerator_query_result_write_def)

section \<open>Factories\<close>

record ('c, 'h) if_factory =
  getHandler :: "'c \<Rightarrow> 'h iface"
  releaseHandler :: "'h iface \<Rightarrow> 'h \<Rightarrow> 'h"

definition NumeratorIfSingletonFactory :: "'h iface \<Rightarrow> ('c, 'h) if_factory" where
  "NumeratorIfSingletonFactory I = \<lparr>getHandler = (\<lambda>connInfo. I), releaseHandler = (\<lambda>handler h. h)\<rparr>"

definition NumeratorProcessorFactory_getProcessor ::
  "('c, 'h) if_factory \<Rightarrow> 'p tprotocol \<Rightarrow> (exc \<Rightarrow> string) \<Rightarrow> 'c \<Rightarrow>
     (string \<Rightarrow> 32 word \<Rightarrow> 'p \<Rightarrow> 'h \<Rightarrow> 'p served \<times> 'h)" where
  "NumeratorProcessorFactory_getProcessor F P what connInfo =
     NumeratorProcessor_dispatchCall P what (getHandler F connInfo)"

lemma singleton_processor [simp]:
  "NumeratorProcessorFactory_getProcessor (NumeratorIfSingletonFactory I) P what c =
   NumeratorProcessor_dispatchCall P what I"
  by (simp add: NumeratorProcessorFactory_getProcessor_def NumeratorIfSingletonFactory_def)

section \<open>Several handlers behind one interface\<close>

lemma unat_next: "i < (w :: 64 word) \<Longrightarrow> unat (i + 1) = Suc (unat i)"
proof -
  assume "i < w"
  then have "unat i + 1 < 2 ^ 64"
    using unsigned_less [of w, where 'a = nat] by (simp add: word_less_nat_alt)
  then show ?thesis by (simp add: unat_word_ariths)
qed

text \<open>
  The loop of the four methods of \<open>NumeratorMultiface\<close>.  \<open>f I a h\<close> is the call on the object
  \<open>I\<close>; \<open>a\<close> is the response object that \<open>query\<close> hands from one handler to the next.  The bound
  \<open>sz - 1\<close> is a subtraction of \<open>size_t\<close>.
\<close>

function multi_loop ::
  "('h iface \<Rightarrow> 'a \<Rightarrow> 'h \<Rightarrow> 'a call \<times> 'h) \<Rightarrow> 'h iface list \<Rightarrow> 64 word \<Rightarrow> 'a \<Rightarrow> 'h \<Rightarrow> 'a call \<times> 'h" where
  "multi_loop f ifaces i a h =
     (if \<not> unat i < length ifaces then (Undefined IndexOutOfRange, h)
      else if i < of_nat (length ifaces) - 1 then
        (case f (ifaces ! unat i) a h of
           (Returned a', h') \<Rightarrow> multi_loop f ifaces (i + 1) a' h'
         | r \<Rightarrow> r)
      else f (ifaces ! unat i) a h)"
  by pat_completeness auto

termination
  by (relation "measure (\<lambda>(f, ifaces, i, a, h). length ifaces - unat i)") (auto simp: unat_next)

declare multi_loop.simps [simp del]

definition NumeratorMultiface :: "'h iface list \<Rightarrow> 'h iface" where
  "NumeratorMultiface ifaces =
     \<lparr>iface_ping = multi_loop (\<lambda>I a. iface_ping I) ifaces 0 (),
      iface_query = (\<lambda>ret request. multi_loop (\<lambda>I ret. iface_query I ret request) ifaces 0 ret),
      iface_disable_s2i = multi_loop (\<lambda>I a. iface_disable_s2i I) ifaces 0 (),
      iface_enable_s2i = multi_loop (\<lambda>I a. iface_enable_s2i I) ifaces 0 ()\<rparr>"

text \<open>\<open>add\<close>, for derived classes.\<close>

definition NumeratorMultiface_add :: "'h iface list \<Rightarrow> 'h iface \<Rightarrow> 'h iface list" where
  "NumeratorMultiface_add ifaces I = ifaces @ [I]"

section \<open>The example handler\<close>

text \<open>Its state is what it has printed.\<close>

definition skeleton_print :: "string \<Rightarrow> string \<Rightarrow> string" where
  "skeleton_print name out = out @ name @ [newline]"

definition skeleton_handler :: "string iface" where
  "skeleton_handler =
     \<lparr>iface_ping = (\<lambda>out. (Returned (), skeleton_print ''ping'' out)),
      iface_query = (\<lambda>ret request out. (Returned ret, skeleton_print ''query'' out)),
      iface_disable_s2i = (\<lambda>out. (Returned (), skeleton_print ''disable_s2i'' out)),
      iface_enable_s2i = (\<lambda>out. (Returned (), skeleton_print ''enable_s2i'' out))\<rparr>"

section \<open>Facts\<close>

text \<open>The calls one after the other, up to the first that does not return.\<close>

fun chain :: "('h iface \<Rightarrow> 'a \<Rightarrow> 'h \<Rightarrow> 'a call \<times> 'h) \<Rightarrow> 'h iface list \<Rightarrow> 'a \<Rightarrow> 'h \<Rightarrow> 'a call \<times> 'h" where
  "chain f [] a h = (Returned a, h)"
| "chain f (I # Is) a h =
     (case f I a h of (Returned a', h') \<Rightarrow> chain f Is a' h' | r \<Rightarrow> r)"

lemma chain_single: "chain f [I] a h = f I a h"
  by (auto split: prod.splits call.splits)

lemma multi_loop_chain:
  assumes "length ifaces < 2 ^ 64" and "n < length ifaces"
  shows "multi_loop f ifaces (of_nat n) a h = chain f (drop n ifaces) a h"
  using assms(2)
proof (induction "length ifaces - n" arbitrary: n a h rule: less_induct)
  case less
  have n: "unat (of_nat n :: 64 word) = n"
    using less.prems assms(1) by (simp add: unsigned_of_nat take_bit_nat_eq_self)
  have sz: "(of_nat (length ifaces) :: 64 word) - 1 = of_nat (length ifaces - 1)"
    using less.prems of_nat_diff [of 1 "length ifaces", where 'a = "64 word"] by simp
  have "take_bit 64 (length ifaces - 1) = length ifaces - 1"
    using assms(1) by (intro take_bit_nat_eq_self) simp
  then have u: "unat (of_nat (length ifaces - 1) :: 64 word) = length ifaces - 1"
    by (simp only: unsigned_of_nat len_bit0 len_num1 mult_1_right) simp
  have last: "(of_nat n :: 64 word) < of_nat (length ifaces) - 1 \<longleftrightarrow> Suc n < length ifaces"
    unfolding sz word_less_nat_alt n u using less.prems by linarith
  have d: "drop n ifaces = ifaces ! n # drop (Suc n) ifaces" using less.prems by (rule Cons_nth_drop_Suc [symmetric])
  show ?case
  proof (cases "Suc n < length ifaces")
    case True
    then have "multi_loop f ifaces (of_nat n + 1) a' h' = chain f (drop (Suc n) ifaces) a' h'" for a' h'
      using less.hyps [of "Suc n"] less.prems by (simp add: add.commute)
    with True less.prems last n d show ?thesis
      by (subst multi_loop.simps) (auto split: prod.split call.split)
  next
    case False
    then have "drop (Suc n) ifaces = []" by simp
    with False less.prems last n d show ?thesis
      by (subst multi_loop.simps) (auto split: prod.split call.split)
  qed
qed

lemma multi_loop_start:
  assumes "length ifaces < 2 ^ 64" and "ifaces \<noteq> []"
  shows "multi_loop f ifaces 0 a h = chain f ifaces a h"
  using multi_loop_chain [OF assms(1), of 0 f a h] assms(2) by simp

lemma raise_not_Returned [simp]: "raise e \<noteq> Returned r"
  by (cases e) simp_all

text \<open>What a handler was given in its response stays in front of the new ids.\<close>

lemma s2i_loop_ids:
  "s2i_loop find_s ss kvs (xs @ ids) c m =
     (case s2i_loop find_s ss kvs ids c m of
        (Inl e, r) \<Rightarrow> (Inl e, r) | (Inr (kvs', ids'), r) \<Rightarrow> (Inr (kvs', xs @ ids'), r))"
  by (induction find_s ss kvs ids c m rule: s2i_loop.induct)
     (auto split: prod.splits sum.splits)

lemma query_impl_response:
  assumes "query_impl find_s write lookup Query_new q h = (Returned r, h')"
  shows "\<exists>r'. query_impl find_s write lookup ret q h = (Returned r', h') \<and> q_op r' = q_op q \<and>
           (q_op q = STR2ID \<longrightarrow> q_ids r' = q_ids ret @ q_ids r) \<and>
           (q_op q = ID2STR \<longrightarrow> q_strings r' = q_strings r \<and> q_failures r' = q_failures r)"
proof (cases "q_op q = STR2ID")
  case True
  with assms s2i_loop_ids [of find_s "q_strings q" "[]" "q_ids ret" "q_ids Query_new" "cnt h" "memory_storage h"]
  show ?thesis
    by (auto simp: query_impl_def Query_new_def Let_def split: if_splits prod.splits sum.splits)
next
  case False
  with assms show ?thesis
    by (auto simp: query_impl_def split: if_splits prod.splits sum.splits)
qed

lemma handler_response:
  assumes "iface_query (numerator_iface J L junk) Query_new q h = (Returned r, h')"
  shows "\<exists>r'. iface_query (numerator_iface J L junk) ret q h = (Returned r', h') \<and> q_op r' = q_op q \<and>
           (q_op q = STR2ID \<longrightarrow> q_ids r' = q_ids ret @ q_ids r) \<and>
           (q_op q = ID2STR \<longrightarrow> q_strings r' = q_strings r \<and> q_failures r' = q_failures r)"
proof -
  have "query_impl (ms_find J) (ds_write L) (ds_lookup L) Query_new q h = (Returned r, h')"
    using assms query_answered [of J L Query_new q h "Returned r" h'] by (simp add: numerator_iface_def)
  from query_impl_response [OF this, of ret] show ?thesis
    by (auto simp: numerator_iface_def NumeratorHandler_query_def query_catch_def)
qed

text \<open>Two objects with a state each.\<close>

definition on_fst :: "'a iface \<Rightarrow> ('a \<times> 'b) iface" where
  "on_fst I =
     \<lparr>iface_ping = (\<lambda>(x, y). apsnd (\<lambda>x. (x, y)) (iface_ping I x)),
      iface_query = (\<lambda>ret q (x, y). apsnd (\<lambda>x. (x, y)) (iface_query I ret q x)),
      iface_disable_s2i = (\<lambda>(x, y). apsnd (\<lambda>x. (x, y)) (iface_disable_s2i I x)),
      iface_enable_s2i = (\<lambda>(x, y). apsnd (\<lambda>x. (x, y)) (iface_enable_s2i I x))\<rparr>"

definition on_snd :: "'b iface \<Rightarrow> ('a \<times> 'b) iface" where
  "on_snd I =
     \<lparr>iface_ping = (\<lambda>(x, y). apsnd (Pair x) (iface_ping I y)),
      iface_query = (\<lambda>ret q (x, y). apsnd (Pair x) (iface_query I ret q y)),
      iface_disable_s2i = (\<lambda>(x, y). apsnd (Pair x) (iface_disable_s2i I y)),
      iface_enable_s2i = (\<lambda>(x, y). apsnd (Pair x) (iface_enable_s2i I y))\<rparr>"

section \<open>Properties\<close>

text \<open>
  A multiface calls its handlers one after the other, in their order, with one response
  object, and stops at the first that does not return.  An empty multiface reads past the end
  of its vector on every call, since its \<open>sz - 1\<close> is the greatest \<open>size_t\<close>.
\<close>

theorem multiface_in_order:
  assumes "length ifaces < 2 ^ 64"
  shows "iface_query (NumeratorMultiface ifaces) ret q h =
           (if ifaces = [] then (Undefined IndexOutOfRange, h)
            else chain (\<lambda>I ret. iface_query I ret q) ifaces ret h) \<and>
         iface_disable_s2i (NumeratorMultiface ifaces) h =
           (if ifaces = [] then (Undefined IndexOutOfRange, h)
            else chain (\<lambda>I a. iface_disable_s2i I) ifaces () h)"
  by (cases "ifaces = []")
     (simp_all add: NumeratorMultiface_def multi_loop.simps [of _ "[]"] multi_loop_start [OF assms])

theorem multiface_in_order_witness:
  "iface_query (NumeratorMultiface [skeleton_handler, skeleton_handler]) Query_new Query_new [] =
     (Returned Query_new, ''query'' @ [newline] @ ''query'' @ [newline])"
  using multiface_in_order [of "[skeleton_handler, skeleton_handler]" Query_new Query_new "[]"]
  by (simp add: skeleton_handler_def skeleton_print_def)

text \<open>
  Two numerators behind one multiface do not answer as one: a string-to-id query gets the
  ids of the first server followed by those of the second, two for each string, while an
  id-to-string query gets the answer of the second server alone.
\<close>

theorem multiface_two_numerators:
  assumes "iface_query (numerator_iface J1 L1 junk) Query_new q h1 = (Returned r1, h1')"
    and "iface_query (numerator_iface J2 L2 junk) Query_new q h2 = (Returned r2, h2')"
  shows "\<exists>r. iface_query (NumeratorMultiface
               [on_fst (numerator_iface J1 L1 junk), on_snd (numerator_iface J2 L2 junk)])
               Query_new q (h1, h2) = (Returned r, (h1', h2')) \<and>
           (q_op q = STR2ID \<longrightarrow> q_ids r = q_ids r1 @ q_ids r2) \<and>
           (q_op q = ID2STR \<longrightarrow> q_strings r = q_strings r2 \<and> q_failures r = q_failures r2)"
proof -
  obtain r where r: "iface_query (numerator_iface J2 L2 junk) r1 q h2 = (Returned r, h2')"
    "q_op q = STR2ID \<longrightarrow> q_ids r = q_ids r1 @ q_ids r2"
    "q_op q = ID2STR \<longrightarrow> q_strings r = q_strings r2 \<and> q_failures r = q_failures r2"
    using handler_response [OF assms(2), of r1] by blast
  have "iface_query (NumeratorMultiface
      [on_fst (numerator_iface J1 L1 junk), on_snd (numerator_iface J2 L2 junk)]) Query_new q (h1, h2) =
      chain (\<lambda>I ret. iface_query I ret q)
        [on_fst (numerator_iface J1 L1 junk), on_snd (numerator_iface J2 L2 junk)] Query_new (h1, h2)"
    by (simp add: NumeratorMultiface_def multi_loop_start)
  with assms(1) r show ?thesis by (simp add: on_fst_def on_snd_def)
qed

theorem multiface_two_numerators_witness:
  "\<exists>r h. iface_query (NumeratorMultiface
       [on_fst (numerator_iface alist_judy alist_db 0), on_snd (numerator_iface alist_judy alist_db 0)])
       Query_new demo_query (empty_server, empty_server) = (Returned r, h) \<and> q_ids r = [1, 2, 1, 2]"
proof -
  have q: "iface_query (numerator_iface alist_judy alist_db 0) Query_new demo_query empty_server =
      (Returned (Query_new\<lparr>q_op := STR2ID, q_ids := [1, 2]\<rparr>), demo_server)"
    using demo_query_reply by (simp add: numerator_iface_def)
  from multiface_two_numerators [OF q q] show ?thesis by (auto simp: demo_query_def)
qed

end
