(* ===== verification/Getopt.thy ===== *)
theory Getopt
  imports Prelude "HOL-Library.Sublist"
begin

text \<open>
  \<open>getopt\<close> and \<open>getopt_long\<close> of the C library as its manual describes them, in their default
  mode (options may stand behind operands, \<open>POSIXLY_CORRECT\<close> is not set).  The result is what
  the successive calls return until they return -1: the option character with \<open>optarg\<close>, or
  \<open>'?'\<close> for an option that is unknown, ambiguous, without its argument or with one it does not
  take.  \<open>optarg\<close> is null for an option without argument, and no program reads it then; it is
  the empty string here.
\<close>

type_synonym getopt_result = "(char \<times> string) list"

record long_option =
  lo_name :: string
  lo_arg :: bool
  lo_val :: char

abbreviation required_argument :: "string \<Rightarrow> char \<Rightarrow> long_option" where
  "required_argument name c \<equiv> \<lparr>lo_name = name, lo_arg = True, lo_val = c\<rparr>"

abbreviation no_argument :: "string \<Rightarrow> char \<Rightarrow> long_option" where
  "no_argument name c \<equiv> \<lparr>lo_name = name, lo_arg = False, lo_val = c\<rparr>"

abbreviation bad_option :: "char \<times> string" where
  "bad_option \<equiv> (CHR ''?'', [])"

text \<open>What the option string says of a character; with an argument if a colon follows it.\<close>

fun short_arg :: "string \<Rightarrow> char \<Rightarrow> bool option" where
  "short_arg [] c = None"
| "short_arg (x # shorts) c =
     (if c = CHR '':'' then None
      else if x = c then Some (take 1 shorts = '':'')
      else short_arg shorts c)"

text \<open>The characters of one argument behind its dash, and the arguments that are left.\<close>

fun short_options :: "string \<Rightarrow> string \<Rightarrow> string list \<Rightarrow> getopt_result \<times> string list" where
  "short_options shorts [] argv = ([], argv)"
| "short_options shorts (c # cs) argv =
     (case short_arg shorts c of
        None \<Rightarrow> (case short_options shorts cs argv of (opts, argv') \<Rightarrow> (bad_option # opts, argv'))
      | Some False \<Rightarrow> (case short_options shorts cs argv of (opts, argv') \<Rightarrow> ((c, []) # opts, argv'))
      | Some True \<Rightarrow>
          if cs \<noteq> [] then ([(c, cs)], argv)
          else (case argv of [] \<Rightarrow> ([bad_option], []) | a # argv' \<Rightarrow> ([(c, a)], argv')))"

text \<open>A long option is found by its name, or by a beginning that no other option has.\<close>

definition find_long :: "long_option list \<Rightarrow> string \<Rightarrow> long_option option" where
  "find_long longs name =
     (case filter (\<lambda>l. lo_name l = name) longs of
        l # _ \<Rightarrow> Some l
      | [] \<Rightarrow> (case filter (\<lambda>l. prefix name (lo_name l)) longs of [l] \<Rightarrow> Some l | _ \<Rightarrow> None))"

definition split_value :: "string \<Rightarrow> string \<times> string option" where
  "split_value s =
     (case dropWhile (\<lambda>c. c \<noteq> CHR ''='') s of
        [] \<Rightarrow> (s, None)
      | _ # v \<Rightarrow> (takeWhile (\<lambda>c. c \<noteq> CHR ''='') s, Some v))"

definition long_option_step ::
  "long_option list \<Rightarrow> string \<Rightarrow> string list \<Rightarrow> (char \<times> string) \<times> string list" where
  "long_option_step longs s argv =
     (case split_value s of (name, v) \<Rightarrow>
        case find_long longs name of
          None \<Rightarrow> (bad_option, argv)
        | Some l \<Rightarrow>
            (case v of
               Some v' \<Rightarrow> (if lo_arg l then (lo_val l, v') else bad_option, argv)
             | None \<Rightarrow>
                 if \<not> lo_arg l then ((lo_val l, []), argv)
                 else (case argv of [] \<Rightarrow> (bad_option, []) | a # argv' \<Rightarrow> ((lo_val l, a), argv'))))"

lemma short_options_shorter:
  "short_options shorts cs argv = (opts, argv') \<Longrightarrow> length argv' \<le> length argv"
  by (induction shorts cs argv arbitrary: opts argv' rule: short_options.induct)
     (auto split: option.splits bool.splits if_splits list.splits prod.splits)

lemma long_option_shorter:
  "long_option_step longs s argv = (opt, argv') \<Longrightarrow> length argv' \<le> length argv"
  by (auto simp: long_option_step_def split: prod.splits option.splits if_splits list.splits)

text \<open>\<open>None\<close> instead of a table of long options is \<open>getopt\<close>, which has none.\<close>

function getopt_long :: "string \<Rightarrow> long_option list option \<Rightarrow> string list \<Rightarrow> getopt_result" where
  "getopt_long shorts longs [] = []"
| "getopt_long shorts longs (a # argv) =
     (if a = ''--'' then []
      else if longs \<noteq> None \<and> take 2 a = ''--'' then
        (case long_option_step (the longs) (drop 2 a) argv of
           (opt, argv') \<Rightarrow> opt # getopt_long shorts longs argv')
      else if take 1 a = ''-'' \<and> a \<noteq> ''-'' then
        (case short_options shorts (drop 1 a) argv of
           (opts, argv') \<Rightarrow> opts @ getopt_long shorts longs argv')
      else getopt_long shorts longs argv)"
  by pat_completeness auto
termination
  by (relation "measure (\<lambda>(_, _, argv). length argv)")
     (auto dest: short_options_shorter [OF sym] long_option_shorter [OF sym])

definition getopt :: "string \<Rightarrow> string list \<Rightarrow> getopt_result" where
  "getopt shorts argv = getopt_long shorts None argv"

section \<open>The four ways to spell an option\<close>

datatype spelling = ShortApart | ShortJoined | LongApart | LongJoined

fun spelled :: "spelling \<Rightarrow> long_option \<Rightarrow> string \<Rightarrow> string list" where
  "spelled ShortApart l v = [''-'' @ [lo_val l], v]"
| "spelled ShortJoined l v = [''-'' @ lo_val l # v]"
| "spelled LongApart l v = [''--'' @ lo_name l, v]"
| "spelled LongJoined l v = [''--'' @ lo_name l @ ''='' @ v]"

fun spelled_flag :: "bool \<Rightarrow> long_option \<Rightarrow> string list" where
  "spelled_flag long l = (if long then [''--'' @ lo_name l] else [''-'' @ [lo_val l]])"

text \<open>
  An option string and a table agree: each option of the table is in the option string, and
  takes an argument in both or in neither; the names differ and have no equals sign.
\<close>

definition options_agree :: "string \<Rightarrow> long_option list \<Rightarrow> bool" where
  "options_agree shorts longs \<longleftrightarrow>
     distinct (map lo_name longs) \<and>
     (\<forall>l \<in> set longs. short_arg shorts (lo_val l) = Some (lo_arg l) \<and> lo_name l \<noteq> [] \<and>
        lo_val l \<noteq> CHR ''-'' \<and> CHR ''='' \<notin> set (lo_name l))"

lemma find_long_exact:
  assumes "distinct (map lo_name longs)" and "l \<in> set longs"
  shows "find_long longs (lo_name l) = Some l"
proof -
  have "filter (\<lambda>k. lo_name k = lo_name l) longs = [l]"
    using assms
  proof (induction longs)
    case (Cons k longs)
    then show ?case by (cases "k = l") (auto simp: filter_empty_conv image_iff)
  qed simp
  then show ?thesis by (simp add: find_long_def)
qed

lemma split_value_simps:
  assumes "CHR ''='' \<notin> set name"
  shows "split_value name = (name, None)" and "split_value (name @ CHR ''='' # v) = (name, Some v)"
proof -
  have "\<And>c. c \<in> set name \<Longrightarrow> c \<noteq> CHR ''=''" using assms by auto
  then show "split_value name = (name, None)" "split_value (name @ CHR ''='' # v) = (name, Some v)"
    by (simp_all add: split_value_def dropWhile_append2 takeWhile_append2 dropWhile_eq_Nil_conv [THEN iffD2])
qed

lemma getopt_spelled:
  assumes "options_agree shorts longs" and "l \<in> set longs" and "lo_arg l" and "sp = ShortJoined \<Longrightarrow> v \<noteq> []"
  shows "getopt_long shorts (Some longs) (spelled sp l v @ argv) = (lo_val l, v) # getopt_long shorts (Some longs) argv"
proof -
  have l: "short_arg shorts (lo_val l) = Some True" "lo_name l \<noteq> []" "lo_val l \<noteq> CHR ''-''"
    "CHR ''='' \<notin> set (lo_name l)" "find_long longs (lo_name l) = Some l"
    using assms(1-3) find_long_exact by (auto simp: options_agree_def)
  then show ?thesis using assms(3,4)
    by (cases sp) (simp_all add: long_option_step_def split_value_simps)
qed

definition spelled_all :: "(spelling \<times> long_option \<times> string) list \<Rightarrow> string list" where
  "spelled_all os = concat (map (\<lambda>(sp, l, v). spelled sp l v) os)"

lemma getopt_spelled_all:
  assumes "options_agree shorts longs"
    and "\<forall>(sp, l, v) \<in> set os. l \<in> set longs \<and> lo_arg l \<and> (sp = ShortJoined \<longrightarrow> v \<noteq> [])"
  shows "getopt_long shorts (Some longs) (spelled_all os @ argv) =
           map (\<lambda>(sp, l, v). (lo_val l, v)) os @ getopt_long shorts (Some longs) argv"
  using assms(2)
proof (induction os)
  case (Cons x os)
  obtain sp l v where x: "x = (sp, l, v)" by (cases x)
  then have "getopt_long shorts (Some longs) (spelled sp l v @ spelled_all os @ argv) =
      (lo_val l, v) # getopt_long shorts (Some longs) (spelled_all os @ argv)"
    using Cons.prems by (intro getopt_spelled [OF assms(1)]) auto
  with Cons x show ?case by (simp add: spelled_all_def)
qed (simp add: spelled_all_def)

lemma getopt_spelled_flag:
  assumes "options_agree shorts longs" and "l \<in> set longs" and "\<not> lo_arg l"
  shows "getopt_long shorts (Some longs) (spelled_flag long l @ argv) = (lo_val l, []) # getopt_long shorts (Some longs) argv"
proof -
  have "short_arg shorts (lo_val l) = Some False" "lo_name l \<noteq> []" "lo_val l \<noteq> CHR ''-''"
    "CHR ''='' \<notin> set (lo_name l)" "find_long longs (lo_name l) = Some l"
    using assms find_long_exact by (auto simp: options_agree_def)
  then show ?thesis using assms(3)
    by (cases long) (simp_all add: long_option_step_def split_value_simps)
qed

end
