(* ===== verification/Boost_Lib.thy ===== *)
theory Boost_Lib
  imports Prelude
begin

text \<open>
  The Boost functions that the program calls, which are not part of the repository: a
  parameter of the model.  \<open>boost_split\<close> is \<open>boost::split\<close> with \<open>is_any_of\<close> of the given
  separators and token compression on or off; the \<open>lexical_cast\<close>s give the text of the
  exception (\<open>Inl\<close>) or the number.
\<close>

record boost =
  boost_split :: "string \<Rightarrow> bool \<Rightarrow> string \<Rightarrow> string list"
  lexical_cast_i64 :: "string \<Rightarrow> string + 64 word"
  lexical_cast_size :: "string \<Rightarrow> string + 64 word"
  lexical_cast_int :: "string \<Rightarrow> string + 32 word"
  lexical_cast_unsigned :: "string \<Rightarrow> string + 32 word"

text \<open>
  Documented behaviour: without compression every separator ends a token, so a string
  without separators is one token; a single separator splits in two with compression too; a
  cast inverts the standard output of a number.
\<close>

definition boost_ok :: "boost \<Rightarrow> bool" where
  "boost_ok B \<longleftrightarrow>
     (\<forall>seps s. (\<forall>c \<in> set s. c \<notin> set seps) \<longrightarrow> boost_split B seps False s = [s]) \<and>
     (\<forall>seps a c b. (\<forall>c \<in> set a. c \<notin> set seps) \<longrightarrow> c \<in> set seps \<longrightarrow>
        boost_split B seps False (a @ c # b) = a # boost_split B seps False b) \<and>
     (\<forall>seps a c b. (\<forall>c \<in> set a. c \<notin> set seps) \<longrightarrow> c \<in> set seps \<longrightarrow>
        (\<forall>c \<in> set b. c \<notin> set seps) \<longrightarrow> boost_split B seps True (a @ c # b) = [a, b]) \<and>
     (\<forall>w. lexical_cast_i64 B (print_id w) = Inr w) \<and>
     (\<forall>w. lexical_cast_size B (print_nat (unat w)) = Inr w) \<and>
     (\<forall>w. lexical_cast_unsigned B (print_nat (unat w)) = Inr w) \<and>
     (\<forall>w. lexical_cast_int B (print_int (sint w)) = Inr w)"

lemma boost_split_one: "boost_ok B \<Longrightarrow> \<forall>c \<in> set s. c \<notin> set seps \<Longrightarrow> boost_split B seps False s = [s]"
  by (simp add: boost_ok_def)

lemma boost_split_more:
  "boost_ok B \<Longrightarrow> \<forall>c \<in> set a. c \<notin> set seps \<Longrightarrow> c \<in> set seps \<Longrightarrow>
   boost_split B seps False (a @ c # b) = a # boost_split B seps False b"
  by (simp add: boost_ok_def)

lemma boost_split_two:
  "boost_ok B \<Longrightarrow> \<forall>c \<in> set a. c \<notin> set seps \<Longrightarrow> c \<in> set seps \<Longrightarrow> \<forall>c \<in> set b. c \<notin> set seps \<Longrightarrow>
   boost_split B seps True (a @ c # b) = [a, b]"
  by (simp add: boost_ok_def)

lemma lexical_cast_print_int: "boost_ok B \<Longrightarrow> lexical_cast_int B (print_int (sint w)) = Inr w"
  by (simp add: boost_ok_def)

lemma lexical_cast_print_unsigned:
  "boost_ok B \<Longrightarrow> lexical_cast_size B (print_nat (unat w)) = Inr w"
  "boost_ok B \<Longrightarrow> lexical_cast_unsigned B (print_nat (unat u)) = Inr u"
  by (simp_all add: boost_ok_def)

lemma lexical_cast_print: "boost_ok B \<Longrightarrow> lexical_cast_i64 B (print_id w) = Inr w"
  by (simp add: boost_ok_def)

section \<open>A concrete instance, for the witnesses\<close>

fun split_at :: "string \<Rightarrow> string \<Rightarrow> string list" where
  "split_at seps [] = [[]]"
| "split_at seps (c # cs) =
     (if c \<in> set seps then [] # split_at seps cs
      else (case split_at seps cs of t # ts \<Rightarrow> (c # t) # ts | [] \<Rightarrow> [[c]]))"

fun compress :: "bool \<Rightarrow> string list \<Rightarrow> string list" where
  "compress on (a # [] # c # ts) = (if on then compress on (a # c # ts) else a # compress on ([] # c # ts))"
| "compress on (t # ts) = t # compress on ts"
| "compress on [] = []"

definition digit_val :: "char \<Rightarrow> nat option" where
  "digit_val c = map_of (zip ''0123456789'' [0..<10]) c"

fun parse_nat :: "nat \<Rightarrow> string \<Rightarrow> nat option" where
  "parse_nat acc [] = Some acc"
| "parse_nat acc (c # cs) =
     (case digit_val c of None \<Rightarrow> None | Some d \<Rightarrow> parse_nat (10 * acc + d) cs)"

definition parse_int :: "string \<Rightarrow> int option" where
  "parse_int s =
     (case s of
        [] \<Rightarrow> None
      | c # cs \<Rightarrow>
          if c = CHR ''-'' then (if cs = [] then None else map_option (\<lambda>n. - int n) (parse_nat 0 cs))
          else map_option int (parse_nat 0 s))"

definition parse_range :: "int \<Rightarrow> int \<Rightarrow> string \<Rightarrow> string + 'a::len word" where
  "parse_range lo hi s =
     (case parse_int s of
        Some i \<Rightarrow> if lo \<le> i \<and> i < hi then Inr (word_of_int i) else Inl ''bad lexical cast''
      | None \<Rightarrow> Inl ''bad lexical cast'')"

definition ref_boost :: boost where
  "ref_boost =
     \<lparr>boost_split = (\<lambda>seps compr s. compress compr (split_at seps s)),
      lexical_cast_i64 = parse_range (- (2 ^ 63)) (2 ^ 63),
      lexical_cast_size = parse_range 0 (2 ^ 64),
      lexical_cast_int = parse_range (- (2 ^ 31)) (2 ^ 31),
      lexical_cast_unsigned = parse_range 0 (2 ^ 32)\<rparr>"

lemma compress_off [simp]: "compress False ts = ts"
  by (induction "False" ts rule: compress.induct) auto

lemma compress_pair: "compress c [a, b] = [a, b]"
  by (cases a; cases b) auto

lemma split_at_one: "\<forall>c \<in> set s. c \<notin> set seps \<Longrightarrow> split_at seps s = [s]"
  by (induction s) auto

lemma split_at_more:
  "\<forall>c \<in> set a. c \<notin> set seps \<Longrightarrow> c \<in> set seps \<Longrightarrow> split_at seps (a @ c # b) = a # split_at seps b"
  by (induction a) auto

lemma digit_val_digit: "n < 10 \<Longrightarrow> digit_val (digit n) = Some n"
proof -
  assume "n < 10"
  then have "n \<in> {0, 1, 2, 3, 4, 5, 6, 7, 8, 9}" by (simp add: eval_nat_numeral less_Suc_eq)
  then show ?thesis by (auto simp: digit_val_def digit_def upt_rec eval_nat_numeral)
qed

lemma parse_nat_append:
  "parse_nat acc (xs @ ys) = (case parse_nat acc xs of None \<Rightarrow> None | Some a \<Rightarrow> parse_nat a ys)"
  by (induction xs arbitrary: acc) (auto split: option.splits)

lemma parse_print_nat: "parse_nat 0 (print_nat n) = Some n"
proof (induction n rule: print_nat.induct)
  case (1 n)
  show ?case
  proof (cases "n < 10")
    case True
    then show ?thesis by (simp add: print_nat.simps [of n] digit_val_digit)
  next
    case False
    with 1 show ?thesis
      by (simp add: print_nat.simps [of n] parse_nat_append digit_val_digit)
  qed
qed

lemma print_nat_hd: "\<exists>c cs. print_nat n = c # cs \<and> c \<noteq> CHR ''-''"
proof (induction n rule: print_nat.induct)
  case (1 n)
  have "digit_val (CHR ''-'') = None" by (simp add: digit_val_def upt_rec)
  then have dash: "digit n \<noteq> CHR ''-''" if "n < 10" using digit_val_digit [OF that] by auto
  show ?case
  proof (cases "n < 10")
    case True
    then show ?thesis using dash by (simp add: print_nat.simps [of n])
  next
    case False
    with 1 show ?thesis by (auto simp: print_nat.simps [of n])
  qed
qed

lemma parse_print_int: "parse_int (print_int i) = Some i"
proof (cases "i < 0")
  case True
  then show ?thesis
    using print_nat_hd [of "nat (- i)"] by (auto simp: print_int_def parse_int_def parse_print_nat)
next
  case False
  then show ?thesis
    using print_nat_hd [of "nat i"] parse_print_nat [of "nat i"]
    by (auto simp: print_int_def parse_int_def)
qed

lemma parse_print_unsigned: "parse_int (print_nat n) = Some (int n)"
  using parse_print_int [of "int n"] by (simp add: print_int_def)

lemma ref_boost_ok [simp]: "boost_ok ref_boost"
  using sint_num_id_range sint_failure_idx_range
    unsigned_less [where 'b = 64 and 'a = nat] unsigned_less [where 'b = 32 and 'a = nat]
  by (auto simp: boost_ok_def ref_boost_def split_at_one split_at_more parse_range_def print_id_def
      parse_print_int parse_print_unsigned compress_pair of_nat_less_iff [symmetric, where 'a = int])

end
