(* ===== verification/Command_Line.thy ===== *)
theory Command_Line
  imports Getopt Boost_Lib Exceptions Server
begin

text \<open>
  The command line of the three server-side programs' common shape and that of the server:
  numerator.cpp from the options to \<open>server.serve()\<close>.  The functions take what
  \<open>getopt_long\<close> returned; \<open>server_argv\<close> applies it to the arguments of the process.
\<close>

text \<open>How a part of a \<open>main\<close> ends: \<open>Exits True\<close> is \<open>exit(EXIT_SUCCESS)\<close>.\<close>

datatype 'a flow = Go 'a | Throws exc | Exits bool | FlowUndefined ub

fun flow_bind :: "'a flow \<Rightarrow> ('a \<Rightarrow> 'b flow) \<Rightarrow> 'b flow" where
  "flow_bind (Go a) f = f a"
| "flow_bind (Throws x) f = Throws x"
| "flow_bind (Exits ok) f = Exits ok"
| "flow_bind (FlowUndefined u) f = FlowUndefined u"

lemma flow_bind_Go_iff [simp]: "flow_bind m f = Go b \<longleftrightarrow> (\<exists>a. m = Go a \<and> f a = Go b)"
  by (cases m) simp_all

section \<open>The options of the server\<close>

record server_opts =
  so_data_dir :: string
  so_logs_dir :: string
  so_port :: "32 word"
  so_threads :: "32 word"
  so_cache_size :: "32 word"
  so_disable_s2i :: bool

definition server_opts_default :: server_opts where
  "server_opts_default =
     \<lparr>so_data_dir = [], so_logs_dir = [], so_port = 9090, so_threads = 10, so_cache_size = 0,
      so_disable_s2i = False\<rparr>"

fun server_getopt :: "boost \<Rightarrow> getopt_result \<Rightarrow> server_opts \<Rightarrow> server_opts flow" where
  "server_getopt B [] o' = Go o'"
| "server_getopt B ((c, optarg) # opts) o' =
     (if c = CHR ''p'' then
        (case lexical_cast_unsigned B optarg of
           Inl _ \<Rightarrow> Exits False | Inr port \<Rightarrow> server_getopt B opts (o'\<lparr>so_port := port\<rparr>))
      else if c = CHR ''d'' then server_getopt B opts (o'\<lparr>so_data_dir := optarg\<rparr>)
      else if c = CHR ''l'' then server_getopt B opts (o'\<lparr>so_logs_dir := optarg\<rparr>)
      else if c = CHR ''t'' then
        (case lexical_cast_unsigned B optarg of
           Inl _ \<Rightarrow> Exits False | Inr threads \<Rightarrow> server_getopt B opts (o'\<lparr>so_threads := threads\<rparr>))
      else if c = CHR ''c'' then
        (case lexical_cast_int B optarg of
           Inl _ \<Rightarrow> Exits False | Inr cache \<Rightarrow> server_getopt B opts (o'\<lparr>so_cache_size := cache\<rparr>))
      else if c = CHR ''h'' then Exits True
      else if c = CHR ''S'' then server_getopt B opts (o'\<lparr>so_disable_s2i := True\<rparr>)
      else Exits False)"

text \<open>\<open>stat\<close> is the operating system's: what it says of a path.\<close>

datatype stat_result = StatDir | StatOtherFile | StatNoEntry | StatFailed

definition is_dir :: "(string \<Rightarrow> stat_result) \<Rightarrow> string \<Rightarrow> bool flow" where
  "is_dir stat path =
     (case stat (cstr path) of
        StatNoEntry \<Rightarrow> Go False
      | StatFailed \<Rightarrow> Exits False
      | StatDir \<Rightarrow> Go True
      | StatOtherFile \<Rightarrow> Go False)"

definition server_options :: "boost \<Rightarrow> (string \<Rightarrow> stat_result) \<Rightarrow> getopt_result \<Rightarrow> server_opts flow" where
  "server_options B stat opts =
     flow_bind (server_getopt B opts server_opts_default)
       (\<lambda>o'. if so_data_dir o' = [] then Exits False
             else if so_logs_dir o' = [] then Exits False
             else flow_bind (is_dir stat (so_logs_dir o'))
                    (\<lambda>dir. if \<not> dir then Exits False else Go o'))"

text \<open>\<open>main\<close>, up to the point where the server begins to accept connections.\<close>

definition numerator_main ::
  "boost \<Rightarrow> (string \<Rightarrow> stat_result) \<Rightarrow> 'j judy \<Rightarrow> 'db leveldb \<Rightarrow> num_id \<Rightarrow> getopt_result \<Rightarrow>
     (server_opts \<times> ('j, 'db) server) flow" where
  "numerator_main B stat J L junk opts =
     flow_bind (server_options B stat opts)
       (\<lambda>o'. case server_start J L (so_data_dir o') (so_cache_size o') (so_disable_s2i o') junk of
               Returned h \<Rightarrow> Go (o', h)
             | Undefined u \<Rightarrow> FlowUndefined u
             | _ \<Rightarrow> Exits False)"

section \<open>The option tables\<close>

definition server_shortopts :: string where
  "server_shortopts = ''p:d:l:t:c:hS''"

definition server_longopts :: "long_option list" where
  "server_longopts =
     [required_argument ''data-dir'' (CHR ''d''), required_argument ''logs-dir'' (CHR ''l''),
      required_argument ''threads'' (CHR ''t''), required_argument ''port'' (CHR ''p''),
      required_argument ''cache-size'' (CHR ''c''), no_argument ''disable-s2i'' (CHR ''S''),
      no_argument ''help'' (CHR ''h'')]"

text \<open>The options of a process with these arguments, \<open>argv[0]\<close> left out.\<close>

definition server_argv :: "string list \<Rightarrow> getopt_result" where
  "server_argv argv = getopt_long server_shortopts (Some server_longopts) argv"

text \<open>What \<open>usage\<close> prints, line by line, before it exits with success.\<close>

definition server_usage :: "string \<Rightarrow> string list" where
  "server_usage program =
     [''Usage: '' @ program @ '' args'', [], ''Arguments:'',
      ''  -h,--help               write this help message'',
      ''  -l,--logs-dir DIR       directory where to write logs'',
      ''  -d,--data-dir DIR       directory where to store data'',
      ''  -t,--threads NUM (=10)  number of worker threads'',
      ''  -p,--port PORT (=9090)  port to bind'',
      ''  -c,--cache-size SIZE    id to string lookups cache size in MB,'',
      ''                          (if not specified - use default cache size,'',
      ''                          if negative value - disable caching)'',
      ''  -S,--disable-s2i        disable string -> id type requests'']"

lemma server_options_agree: "options_agree server_shortopts server_longopts"
  by (simp add: options_agree_def server_shortopts_def server_longopts_def)

text \<open>The usage text has a line for every option of the table.\<close>

lemma server_usage_complete:
  "\<forall>l \<in> set server_longopts. \<exists>line \<in> set (server_usage program).
     prefix (''  -'' @ lo_val l # '',--'' @ lo_name l @ '' '') line"
  by (simp add: server_longopts_def server_usage_def)

section \<open>Facts\<close>

definition server_opt :: "char \<Rightarrow> bool" where
  "server_opt c \<longleftrightarrow> c \<in> set ''pdltcS''"

lemma server_opt_chars [simp]:
  "server_opt (CHR ''p'')" "server_opt (CHR ''d'')" "server_opt (CHR ''l'')" "server_opt (CHR ''t'')"
  "server_opt (CHR ''c'')" "server_opt (CHR ''S'')"
  by (simp_all add: server_opt_def)

lemma server_getopt_Go:
  "server_getopt B opts o' = Go o'' \<Longrightarrow>
   so_disable_s2i o'' = (so_disable_s2i o' \<or> CHR ''S'' \<in> fst ` set opts) \<and>
   (\<forall>c \<in> fst ` set opts. server_opt c)"
proof (induction opts arbitrary: o')
  case (Cons a opts)
  obtain c arg where a: "a = (c, arg)" by (cases a)
  obtain o1 where o1: "server_getopt B opts o1 = Go o''"
    "so_disable_s2i o1 = (so_disable_s2i o' \<or> c = CHR ''S'')" "server_opt c"
    using Cons.prems a by (auto split: if_splits sum.splits)
  from Cons.IH [OF o1(1)] o1(2,3) a show ?case by auto
qed simp

lemma numerator_main_Go:
  assumes "numerator_main B stat J L junk opts = Go (o', h)"
  shows "server_options B stat opts = Go o'"
    and "server_start J L (so_data_dir o') (so_cache_size o') (so_disable_s2i o') junk = Returned h"
proof -
  obtain o1 where o1: "server_options B stat opts = Go o1"
    "(case server_start J L (so_data_dir o1) (so_cache_size o1) (so_disable_s2i o1) junk of
        Returned h \<Rightarrow> Go (o1, h) | Undefined u \<Rightarrow> FlowUndefined u | _ \<Rightarrow> Exits False) = Go (o', h)"
    using assms unfolding numerator_main_def flow_bind_Go_iff by blast
  then show "server_options B stat opts = Go o'"
    and "server_start J L (so_data_dir o') (so_cache_size o') (so_disable_s2i o') junk = Returned h"
    by (cases "server_start J L (so_data_dir o1) (so_cache_size o1) (so_disable_s2i o1) junk"; simp)+
qed

section \<open>Properties\<close>

text \<open>
  A server that starts to serve was given what it needs: only known options, a data
  directory and a log directory that exists; it runs with string-to-id queries disabled
  exactly when \<open>-S\<close> was among the options, and in that case with an empty index and the
  counter at 0.  In every other case \<open>main\<close> does not get to \<open>serve\<close>.
\<close>

theorem numerator_main_serves:
  assumes "numerator_main B stat J L junk opts = Go (o', h)"
  shows "so_data_dir o' \<noteq> [] \<and> stat (cstr (so_logs_dir o')) = StatDir \<and>
         (\<forall>c \<in> fst ` set opts. c \<in> set ''pdltcS'') \<and>
         (disable_s2i_queries h \<longleftrightarrow> CHR ''S'' \<in> fst ` set opts) \<and>
         (disable_s2i_queries h \<longrightarrow> memory_storage h = ms_new J \<and> cnt h = 0)"
proof -
  note o' = numerator_main_Go(1) [OF assms] and s = numerator_main_Go(2) [OF assms]
  have g: "server_getopt B opts server_opts_default = Go o'"
    and dirs: "so_data_dir o' \<noteq> []" "is_dir stat (so_logs_dir o') = Go True"
    using o' by (auto simp: server_options_def split: if_splits)
  have "disable_s2i_queries h = so_disable_s2i o' \<and>
      (so_disable_s2i o' \<longrightarrow> memory_storage h = ms_new J \<and> cnt h = 0)"
    using s by (auto simp: server_start_def split: prod.splits sum.splits error.splits if_splits)
  moreover have "stat (cstr (so_logs_dir o')) = StatDir"
    using dirs(2) by (simp add: is_dir_def split: stat_result.splits)
  ultimately show ?thesis
    using server_getopt_Go [OF g] dirs(1) by (simp add: server_opts_default_def server_opt_def)
qed

theorem numerator_main_serves_witness:
  "\<exists>o' h. numerator_main ref_boost (\<lambda>p. StatDir) alist_judy alist_db 0
     [(CHR ''d'', ''/data''), (CHR ''l'', ''/logs''), (CHR ''S'', [])] = Go (o', h) \<and>
     disable_s2i_queries h \<and> cnt h = 0"
proof -
  let ?opts = "[(CHR ''d'', ''/data''), (CHR ''l'', ''/logs''), (CHR ''S'', [])]"
  obtain o' h where go: "numerator_main ref_boost (\<lambda>p. StatDir) alist_judy alist_db 0 ?opts = Go (o', h)"
    by (simp add: numerator_main_def server_options_def server_opts_default_def is_dir_def server_start_def
        ds_init_def alist_db_def Let_def)
  from numerator_main_serves [OF go] go show ?thesis by auto
qed

text \<open>A command line with every option in one of its spellings.\<close>

definition server_spelled :: "(char \<Rightarrow> spelling) \<Rightarrow> bool \<Rightarrow> server_opts \<Rightarrow> string list" where
  "server_spelled sp long o' =
     spelled_all
       [(sp (CHR ''d''), required_argument ''data-dir'' (CHR ''d''), so_data_dir o'),
        (sp (CHR ''l''), required_argument ''logs-dir'' (CHR ''l''), so_logs_dir o'),
        (sp (CHR ''t''), required_argument ''threads'' (CHR ''t''), print_nat (unat (so_threads o'))),
        (sp (CHR ''p''), required_argument ''port'' (CHR ''p''), print_nat (unat (so_port o'))),
        (sp (CHR ''c''), required_argument ''cache-size'' (CHR ''c''), print_int (sint (so_cache_size o')))] @
     (if so_disable_s2i o' then spelled_flag long (no_argument ''disable-s2i'' (CHR ''S'')) else [])"

lemma print_nonempty [simp]: "print_nat n \<noteq> []" "print_int i \<noteq> []"
  using print_nat_hd [of n] print_nat_hd [of "nat i"] by (auto simp: print_int_def)

lemma server_opts_spelled:
  assumes "boost_ok B" and "so_data_dir o' \<noteq> []" and "so_logs_dir o' \<noteq> []"
  shows "server_getopt B (server_argv (server_spelled sp long o')) server_opts_default = Go o'"
proof -
  have "server_argv (server_spelled sp long o') =
      [(CHR ''d'', so_data_dir o'), (CHR ''l'', so_logs_dir o'), (CHR ''t'', print_nat (unat (so_threads o'))),
       (CHR ''p'', print_nat (unat (so_port o'))), (CHR ''c'', print_int (sint (so_cache_size o')))] @
      getopt_long server_shortopts (Some server_longopts)
        (if so_disable_s2i o' then spelled_flag long (no_argument ''disable-s2i'' (CHR ''S'')) else [])"
    unfolding server_argv_def server_spelled_def
    by (subst getopt_spelled_all [OF server_options_agree])
       (use assms(2,3) in \<open>auto simp: server_longopts_def\<close>)
  moreover have "getopt_long server_shortopts (Some server_longopts) (spelled_flag long (no_argument ''disable-s2i'' (CHR ''S''))) =
      [(CHR ''S'', [])]"
    using getopt_spelled_flag [OF server_options_agree, of "no_argument ''disable-s2i'' (CHR ''S'')" long "[]"]
    by (simp add: server_longopts_def del: spelled_flag.simps)
  ultimately have "server_argv (server_spelled sp long o') =
      [(CHR ''d'', so_data_dir o'), (CHR ''l'', so_logs_dir o'), (CHR ''t'', print_nat (unat (so_threads o'))),
       (CHR ''p'', print_nat (unat (so_port o'))), (CHR ''c'', print_int (sint (so_cache_size o')))] @
      (if so_disable_s2i o' then [(CHR ''S'', [])] else [])"
    by simp
  then show ?thesis
    using lexical_cast_print_int [OF assms(1)] lexical_cast_print_unsigned(2) [OF assms(1)]
    by (simp add: server_opts_default_def)
qed

text \<open>
  C39. The command line of the server says what it means.  However each option is spelled (in
  its short or its long form, with its argument apart or joined), the server gets exactly the
  options that were spelled: the option string, the table of long options and the switch over
  the option characters fit together.
\<close>

theorem server_command_line:
  assumes "boost_ok B" and "so_data_dir o' \<noteq> []" and "so_logs_dir o' \<noteq> []"
  shows "server_getopt B (server_argv (server_spelled sp long o')) server_opts_default = Go o'"
  by (rule server_opts_spelled [OF assms])

definition demo_opts :: server_opts where
  "demo_opts = \<lparr>so_data_dir = ''/data'', so_logs_dir = ''/logs'', so_port = 9091, so_threads = 4,
     so_cache_size = - 1, so_disable_s2i = True\<rparr>"

theorem server_command_line_witness:
  "\<exists>argv. take 3 argv = [''-d/data'', ''--logs-dir'', ''/logs''] \<and> last argv = ''--disable-s2i'' \<and>
     server_getopt ref_boost (server_argv argv) server_opts_default = Go demo_opts"
proof -
  let ?sp = "\<lambda>c. if c = CHR ''d'' then ShortJoined else if c = CHR ''l'' then LongApart else LongJoined"
  let ?argv = "server_spelled ?sp True demo_opts"
  have "server_getopt ref_boost (server_argv ?argv) server_opts_default = Go demo_opts"
    by (rule server_command_line [OF ref_boost_ok]) (simp_all add: demo_opts_def)
  moreover have "take 3 ?argv = [''-d/data'', ''--logs-dir'', ''/logs''] \<and> last ?argv = ''--disable-s2i''"
    by (simp add: server_spelled_def spelled_all_def demo_opts_def)
  ultimately show ?thesis by blast
qed

end
