(* ===== verification/Logging.thy ===== *)
theory Logging
  imports Command_Line "HOL-Library.Stream"
begin

text \<open>
  logger\_initializer.hpp: what the server does with the glog library, as the sequence of its
  calls.  The constructor only starts the flusher thread; what that thread does is a stream.
\<close>

datatype log_event =
    InitGoogleLogging string
  | SetLogDestination string string
  | CreateFlusher
  | FlushLogFiles
  | ShutdownGoogleLogging
  | Sleep nat
  | LogWarning string

text \<open>\<open>operator[]\<close> of a string: at the position of its size it gives the NUL character.\<close>

definition str_at :: "string \<Rightarrow> nat \<Rightarrow> char" where
  "str_at s i = (if i < length s then s ! i else CHR 0x00)"

definition log_dir :: "string \<Rightarrow> string" where
  "log_dir logs_dir =
     (if str_at logs_dir (length logs_dir) \<noteq> CHR ''/'' then logs_dir @ ''/'' else logs_dir)"

definition log_destinations :: "string \<Rightarrow> string \<Rightarrow> log_event list" where
  "log_destinations logs_dir base =
     map (\<lambda>level. SetLogDestination level (cstr (log_dir logs_dir @ base @ ''.log.'' @ level @ ''.'')))
       [''ERROR'', ''INFO'', ''WARNING'']"

text \<open>\<open>rc\<close> is what \<open>pthread_create\<close> returns.\<close>

definition LoggerInitializer :: "int \<Rightarrow> string \<Rightarrow> string \<Rightarrow> string \<Rightarrow> log_event list \<times> unit flow" where
  "LoggerInitializer rc logs_dir name base =
     (InitGoogleLogging (cstr name) # log_destinations logs_dir base @ [CreateFlusher],
      if rc \<noteq> 0 then Exits False else Go ())"

definition LoggerInitializer_destroy :: "log_event list" where
  "LoggerInitializer_destroy = [FlushLogFiles, ShutdownGoogleLogging]"

text \<open>Where the Thrift library's own messages go; the argument is a C string.\<close>

definition thrift_messages_logger :: "string \<Rightarrow> log_event list" where
  "thrift_messages_logger message = [LogWarning (cstr message)]"

text \<open>The body of the flusher's endless loop, again and again.\<close>

definition logs_flusher :: "log_event stream" where
  "logs_flusher = cycle [FlushLogFiles, Sleep 1]"

lemma logs_flusher_unfold: "logs_flusher = FlushLogFiles ## Sleep 1 ## logs_flusher"
  unfolding logs_flusher_def by (subst cycle_decomp) simp_all

text \<open>The flusher never stops flushing, and every other thing it does is a second's sleep.\<close>

lemma logs_flusher_steps: "logs_flusher !! n = (if even n then FlushLogFiles else Sleep 1)"
proof (induction n rule: less_induct)
  case (less n)
  show ?case
  proof (cases "n < 2")
    case True
    then have "n = 0 \<or> n = 1" by auto
    then show ?thesis by (subst logs_flusher_unfold) auto
  next
    case False
    then obtain k where k: "n = Suc (Suc k)" by (metis add_2_eq_Suc le_Suc_ex not_le)
    have "logs_flusher !! n = logs_flusher !! k" unfolding k by (subst logs_flusher_unfold) simp
    with less [of k] k show ?thesis by simp
  qed
qed

text \<open>The test for a trailing slash looks one past the end, so a second slash is added.\<close>

lemma log_dir_always_slash: "log_dir d = d @ ''/''"
  by (simp add: log_dir_def str_at_def)

end
