(* ===== verification/Signals.thy ===== *)
theory Signals
  imports Logging
begin

text \<open>
  signal\_handler.cpp, and with it the life of the server process from its options to the end
  of \<open>main\<close>.  The signals that \<open>sigwait\<close> delivers are an argument of the model: the status and
  the signal of its first call, its second call, and so on.
\<close>

section \<open>The signal thread\<close>

datatype signal = SIGTERM | SIGINT | SIGHUP | OtherSignal nat

definition init_signals :: "signal list" where
  "init_signals = [SIGTERM, SIGINT, SIGHUP]"

type_synonym sigwaits = "nat \<Rightarrow> int \<times> signal"

partial_function (option) sigwaiter_loop :: "sigwaits \<Rightarrow> nat \<Rightarrow> (nat \<times> signal) option" where
  "sigwaiter_loop sigwait n =
     (let (status, signum) = sigwait n in
      if status = 0 \<and> (signum = SIGINT \<or> signum = SIGTERM \<or> signum = SIGHUP)
      then Some (n, signum)
      else sigwaiter_loop sigwait (Suc n))"

text \<open>
  The thread function; \<open>arg\<close> says whether it was given a server.  \<open>LOG(FATAL)\<close> aborts the
  process.  A thread that is never done has the value \<open>None\<close>.
\<close>

datatype waiter_end = Aborts | StopsServer nat signal

definition sigwaiter :: "bool \<Rightarrow> sigwaits \<Rightarrow> waiter_end option" where
  "sigwaiter arg sigwait =
     (if \<not> arg then Some Aborts
      else map_option (\<lambda>(n, signum). StopsServer n signum) (sigwaiter_loop sigwait 0))"

section \<open>The process\<close>

text \<open>
  \<open>main\<close> as a whole, with the calls it makes to the log; \<open>None\<close> is a server that serves for
  ever.  \<open>serve()\<close> returns when the signal thread has stopped the server.
\<close>

definition numerator_process ::
  "boost \<Rightarrow> (string \<Rightarrow> stat_result) \<Rightarrow> 'j judy \<Rightarrow> 'db leveldb \<Rightarrow> num_id \<Rightarrow> string \<Rightarrow> int \<Rightarrow> sigwaits \<Rightarrow>
     getopt_result \<Rightarrow> (log_event list \<times> unit flow) option" where
  "numerator_process B stat J L junk name rc sigwait opts =
     (case server_options B stat opts of
        Throws x \<Rightarrow> Some ([], Throws x)
      | Exits ok \<Rightarrow> Some ([], Exits ok)
      | FlowUndefined u \<Rightarrow> Some ([], FlowUndefined u)
      | Go o' \<Rightarrow>
          (case LoggerInitializer rc (so_logs_dir o') name ''numerator'' of
             (events, Go _) \<Rightarrow>
               (case server_start J L (so_data_dir o') (so_cache_size o') (so_disable_s2i o') junk of
                  Returned h \<Rightarrow>
                    (case sigwaiter True sigwait of
                       None \<Rightarrow> None
                     | Some Aborts \<Rightarrow> Some (events, Exits False)
                     | Some (StopsServer n signum) \<Rightarrow> Some (events @ LoggerInitializer_destroy, Go ()))
                | Undefined u \<Rightarrow> Some (events, FlowUndefined u)
                | _ \<Rightarrow> Some (events, Exits False))
           | (events, Throws x) \<Rightarrow> Some (events, Throws x)
           | (events, Exits ok) \<Rightarrow> Some (events, Exits ok)
           | (events, FlowUndefined u) \<Rightarrow> Some (events, FlowUndefined u)))"

section \<open>Facts\<close>

definition stops :: "int \<times> signal \<Rightarrow> bool" where
  "stops w \<longleftrightarrow> fst w = 0 \<and> snd w \<in> set init_signals"

lemma sigwaiter_loop_step:
  "sigwaiter_loop sigwait n =
     (if stops (sigwait n) then Some (n, snd (sigwait n)) else sigwaiter_loop sigwait (Suc n))"
  by (subst sigwaiter_loop.simps) (auto simp: stops_def init_signals_def split_def)

lemma sigwaiter_loop_first:
  assumes "n \<le> k" and "stops (sigwait k)" and "\<forall>j. n \<le> j \<and> j < k \<longrightarrow> \<not> stops (sigwait j)"
  shows "sigwaiter_loop sigwait n = Some (k, snd (sigwait k))"
  using assms
proof (induction "k - n" arbitrary: n)
  case 0
  then show ?case by (simp add: sigwaiter_loop_step [of sigwait n])
next
  case (Suc d)
  then have "sigwaiter_loop sigwait (Suc n) = Some (k, snd (sigwait k))" by simp
  moreover have "\<not> stops (sigwait n)" using Suc by simp
  ultimately show ?case by (simp add: sigwaiter_loop_step [of sigwait n])
qed

lemma sigwaiter_loop_Some:
  assumes "sigwaiter_loop sigwait n = Some r"
  shows "\<exists>k. stops (sigwait k)"
  using assms
proof (induction rule: sigwaiter_loop.raw_induct [rotated, consumes 1, case_names step])
  case (step loop sigwait n r)
  show ?case
  proof (cases "stops (sigwait n)")
    case False
    then have "loop sigwait (Suc n) = Some r"
      using step.hyps by (auto simp: stops_def init_signals_def split_def Let_def split: if_splits)
    then show ?thesis by (rule step.IH)
  qed blast
qed

lemma sigwaiter_loop_None: "sigwaiter_loop sigwait 0 = None \<longleftrightarrow> \<not> (\<exists>k. stops (sigwait k))"
proof
  assume none: "sigwaiter_loop sigwait 0 = None"
  show "\<not> (\<exists>k. stops (sigwait k))"
  proof
    assume "\<exists>k. stops (sigwait k)"
    then have "stops (sigwait (LEAST k. stops (sigwait k)))" by (rule LeastI_ex)
    moreover have "\<forall>j. j < (LEAST k. stops (sigwait k)) \<longrightarrow> \<not> stops (sigwait j)" using not_less_Least by blast
    ultimately show False using sigwaiter_loop_first [of 0 _ sigwait] none by (metis le0 option.distinct(1))
  qed
qed (use sigwaiter_loop_Some in \<open>metis not_None_eq\<close>)

section \<open>Properties\<close>



end
