(* ===== verification/Deployment.thy ===== *)
theory Deployment
  imports Service_Glue Signals
begin

text \<open>
  How the two servers of the repository are put together from the Thrift library: the last
  part of \<open>main\<close> in numerator.cpp and \<open>main\<close> of the generated skeleton; and a deployed
  server as a whole, from its command line to an answer over the wire.
\<close>

section \<open>The servers\<close>

text \<open>
  A server of the Thrift library: the port of its socket, the threads of its pool (none for
  \<open>TSimpleServer\<close>) and the processor that gets each call.  Both servers use a buffered
  transport and the binary protocol, which is the parameter \<open>P\<close>.
\<close>

record ('p, 'h) thrift_server =
  ts_port :: "32 word"
  ts_threads :: "32 word option"
  ts_processor :: "string \<Rightarrow> 32 word \<Rightarrow> 'p \<Rightarrow> 'h \<Rightarrow> 'p served \<times> 'h"

definition numerator_server ::
  "'p tprotocol \<Rightarrow> (exc \<Rightarrow> string) \<Rightarrow> 'j judy \<Rightarrow> 'db leveldb \<Rightarrow> num_id \<Rightarrow> server_opts \<Rightarrow>
     ('p, ('j, 'db) server) thrift_server" where
  "numerator_server P what J L junk o' =
     \<lparr>ts_port = so_port o', ts_threads = Some (so_threads o'),
      ts_processor = NumeratorProcessor_dispatchCall P what (numerator_iface J L junk)\<rparr>"

definition skeleton_main :: "'p tprotocol \<Rightarrow> (exc \<Rightarrow> string) \<Rightarrow> ('p, string) thrift_server" where
  "skeleton_main P what =
     \<lparr>ts_port = 9090, ts_threads = None,
      ts_processor = NumeratorProcessor_dispatchCall P what skeleton_handler\<rparr>"

text \<open>A query over the wire to such a server.\<close>

definition asks ::
  "'p tprotocol \<Rightarrow> ('p, 'h) thrift_server \<Rightarrow> query \<Rightarrow> 'h \<Rightarrow> texc + query \<Rightarrow> 'h \<Rightarrow> bool" where
  "asks P S request h res h' \<longleftrightarrow>
     (\<exists>c c1 s fname mtype seqid s0 s1 c2 r.
        sent P c = [] \<and> NumeratorClient_send_query P request c = Inr c1 \<and>
        pending P s = sent P c1 \<and> sent P s = [] \<and>
        readMessageBegin P s = Inr ((fname, mtype, seqid), s0) \<and>
        ts_processor S fname seqid s0 h = (Replied s1, h') \<and>
        pending P c2 = sent P s1 \<and>
        NumeratorClient_recv_query P Query_new c2 = Some r \<and> map_sum id fst r = res)"

lemma asks_numerator:
  "asks P (numerator_server P what J L junk o') = wire_query P what (numerator_iface J L junk) Query_new"
  by (simp add: fun_eq_iff asks_def wire_query_def numerator_server_def)

text \<open>The skeleton answers every query with an empty response and prints the method's name.\<close>

lemma skeleton_answers:
  assumes "protocol_ok P" and "protocol_no_error P" and "query_fits q"
    and "asks P (skeleton_main P what) q out res out'"
  shows "out' = out @ ''query'' @ [newline] \<and> res = Inr (query_marked Query_new)"
proof -
  have "wire_query P what skeleton_handler Query_new q out res out'"
    using assms(4) by (simp add: asks_def wire_query_def skeleton_main_def)
  from wire_query_outcome [OF assms(1-3) this]
  show ?thesis by (simp add: skeleton_handler_def skeleton_print_def query_fits_def Query_new_def)
qed

section \<open>Properties\<close>

text \<open>
  C13. A deployed server does what its command line says.  Started with the options spelled in
  any way, on a database whose keys are ids below the greatest number, \<open>main\<close> gets to \<open>serve\<close>
  with the port and the threads that were asked for; and a client that then sends stored ids
  over the wire is answered with exactly the stored strings, without failures, and leaves the
  server unchanged.
\<close>

theorem deployed_server:
  assumes "boost_ok B" and "libs_ok J L" and "libs_no_error J L"
    and "protocol_ok P" and "protocol_no_error P"
    and "so_data_dir o' \<noteq> []" and "so_logs_dir o' \<noteq> []" and "\<not> so_disable_s2i o'"
    and "sint (so_cache_size o') < 2048" and "stat (cstr (so_logs_dir o')) = StatDir"
    and "\<And>opts. ldb_Open L opts (so_data_dir o') = (StOk, Some d)"
    and "\<forall>k \<in> dom (ldb_view L d). length k = 8"
    and "\<forall>i. id_bytes i \<in> dom (ldb_view L d) \<longrightarrow> i \<noteq> max_num_id"
  shows "\<exists>h. numerator_main B stat J L junk (server_argv (server_spelled sp long o')) = Go (o', h) \<and>
           ts_port (numerator_server P what J L junk o') = so_port o' \<and>
           ts_threads (numerator_server P what J L junk o') = Some (so_threads o') \<and>
           (\<forall>ids ss res h'. length ids < 2 ^ 31 \<longrightarrow>
              map (\<lambda>i. ldb_view L d (id_bytes i)) ids = map Some ss \<longrightarrow>
              asks P (numerator_server P what J L junk o')
                (Query_new\<lparr>q_op := ID2STR, q_ids := ids\<rparr>) h res h' \<longrightarrow>
              h' = h \<and> res = Inr (query_marked (Query_new\<lparr>q_op := ID2STR, q_strings := ss\<rparr>)))"
proof -
  have opts: "server_options B stat (server_argv (server_spelled sp long o')) = Go o'"
    using server_opts_spelled [OF assms(1,6,7), of sp long] assms(6,7,10)
    by (simp add: server_options_def is_dir_def)
  obtain h where h: "server_start J L (so_data_dir o') (so_cache_size o') False junk = Returned h"
    "server_inv J L h" "srv_tab L h = (\<lambda>i. ldb_view L d (id_bytes i))"
    using server_starts [OF assms(2,3,11,12,13,9), of junk] by blast
  have main: "numerator_main B stat J L junk (server_argv (server_spelled sp long o')) = Go (o', h)"
    using opts h(1) assms(8) by (simp add: numerator_main_def)
  have "h' = h \<and> res = Inr (query_marked (Query_new\<lparr>q_op := ID2STR, q_strings := ss\<rparr>))"
    if len: "length ids < 2 ^ 31" and stored: "map (\<lambda>i. ldb_view L d (id_bytes i)) ids = map Some ss"
      and asked: "asks P (numerator_server P what J L junk o') (Query_new\<lparr>q_op := ID2STR, q_ids := ids\<rparr>) h res h'"
    for ids ss res h'
  proof -
    let ?q = "Query_new\<lparr>q_op := ID2STR, q_ids := ids\<rparr>" and ?r = "Query_new\<lparr>q_op := ID2STR, q_strings := ss\<rparr>"
    have l: "length ss = length ids" using map_eq_imp_length_eq [OF stored] by simp
    have at: "ldb_view L d (id_bytes (ids ! k)) = Some (ss ! k)" if "k < length ids" for k
      using arg_cong [OF stored, of "\<lambda>xs. xs ! k"] that l by simp
    have "lookup_values (srv_tab L h) ids = ss"
      by (rule nth_equalityI) (use at l h(3) in \<open>simp_all add: lookup_values_def\<close>)
    moreover have "lookup_failures (srv_tab L h) 0 ids = []"
      using at h(3) by (auto simp: lookup_failures_def filter_empty_conv)
    ultimately have "NumeratorHandler_query J L Query_new (query_marked ?q) h = (Returned ?r, h)"
      using i2s_query_returns [OF assms(2,3), of h "query_marked ?q"] h(2) len
      by (simp add: server_inv_def query_marked_def Query_new_def)
    moreover have "query_fits ?q" "query_fits ?r" using len l by (simp_all add: query_fits_def Query_new_def)
    ultimately show ?thesis
      using wire_query_outcome [OF assms(4,5) _ asked [unfolded asks_numerator], of "Returned ?r" h]
      by (simp add: numerator_iface_def)
  qed
  with main show ?thesis by (auto simp: numerator_server_def)
qed

definition demo_table_db :: "(string \<times> string) list leveldb" where
  "demo_table_db = open_db [(id_bytes 5, ''x''), (id_bytes 3, ''y'')]"

lemma demo_table_db_simps:
  "libs_ok alist_judy demo_table_db" "libs_no_error alist_judy demo_table_db"
  "ldb_Open demo_table_db opts path = (StOk, Some [(id_bytes 5, ''x''), (id_bytes 3, ''y'')])"
  "ldb_view demo_table_db = map_of"
  by (simp_all add: demo_table_db_def) (simp add: alist_db_def)

theorem deployed_server_witness:
  "\<exists>h res. numerator_main ref_boost (\<lambda>p. StatDir) alist_judy demo_table_db 0
       (server_argv (server_spelled (\<lambda>c. LongJoined) True (demo_opts\<lparr>so_disable_s2i := False\<rparr>))) =
         Go (demo_opts\<lparr>so_disable_s2i := False\<rparr>, h) \<and>
     asks tape_protocol
       (numerator_server tape_protocol (\<lambda>x. []) alist_judy demo_table_db 0 (demo_opts\<lparr>so_disable_s2i := False\<rparr>))
       (Query_new\<lparr>q_op := ID2STR, q_ids := [3, 5]\<rparr>) h (Inr res) h \<and> q_strings res = [''y'', ''x'']"
proof -
  let ?o = "demo_opts\<lparr>so_disable_s2i := False\<rparr>" and ?d = "[(id_bytes 5, ''x''), (id_bytes 3, ''y'')]"
  let ?q = "Query_new\<lparr>q_op := ID2STR, q_ids := [3, 5]\<rparr>"
  let ?S = "numerator_server tape_protocol (\<lambda>x. []) alist_judy demo_table_db 0 ?o"
  have keys: "\<forall>k \<in> dom (ldb_view demo_table_db ?d). length k = 8"
    by (auto simp: demo_table_db_simps split: if_splits)
  have max: "\<forall>i. id_bytes i \<in> dom (ldb_view demo_table_db ?d) \<longrightarrow> i \<noteq> max_num_id"
    by (auto simp: demo_table_db_simps max_num_id_def split: if_splits)
  have o: "so_data_dir ?o \<noteq> []" "so_logs_dir ?o \<noteq> []" "\<not> so_disable_s2i ?o" "sint (so_cache_size ?o) < 2048"
    "(\<lambda>p. StatDir) (cstr (so_logs_dir ?o)) = StatDir"
    by (simp_all add: demo_opts_def)
  obtain h where
    main: "numerator_main ref_boost (\<lambda>p. StatDir) alist_judy demo_table_db 0
      (server_argv (server_spelled (\<lambda>c. LongJoined) True ?o)) = Go (?o, h)"
    and answer: "\<And>ids ss res h'. length ids < 2 ^ 31 \<Longrightarrow>
       map (\<lambda>i. ldb_view demo_table_db ?d (id_bytes i)) ids = map Some ss \<Longrightarrow>
       asks tape_protocol ?S (Query_new\<lparr>q_op := ID2STR, q_ids := ids\<rparr>) h res h' \<Longrightarrow>
       h' = h \<and> res = Inr (query_marked (Query_new\<lparr>q_op := ID2STR, q_strings := ss\<rparr>))"
    using deployed_server [OF ref_boost_ok demo_table_db_simps(1,2) tape_protocol_ok tape_protocol_no_error
        o demo_table_db_simps(3) keys max, of 0 "\<lambda>c. LongJoined" True "\<lambda>x. []"]
    by blast
  have "server_inv alist_judy demo_table_db h"
    using server_starts [OF demo_table_db_simps(1,2,3) keys max o(4), of "so_data_dir ?o" 0]
      numerator_main_Go(2) [OF main] o(3) by simp
  then have "ds_wf demo_table_db (disk_storage h)" by (simp add: server_inv_def)
  note i2s = i2s_query_returns [OF demo_table_db_simps(1,2) this, of ?q]
  define r where "r = Query_new\<lparr>q_op := ID2STR,
      q_strings := lookup_values (srv_tab demo_table_db h) [3, 5],
      q_failures := lookup_failures (srv_tab demo_table_db h) 0 [3, 5]\<rparr>"
  have "query_fits ?q" "query_fits r"
    using lookup_failures_shape(1) [of "[3, 5]" "srv_tab demo_table_db h"]
    by (simp_all add: query_fits_def Query_new_def r_def lookup_values_def del: lookup_failures_Cons)
  moreover have "NumeratorHandler_query alist_judy demo_table_db Query_new ?q h = (Returned r, h)"
    unfolding r_def using i2s by (simp del: lookup_failures_Cons)
  ultimately have "wire_query tape_protocol (\<lambda>x. []) (numerator_iface alist_judy demo_table_db 0) Query_new ?q h
      (Inr (query_marked r)) h"
    by (intro tape_wire_query [where out = "Returned r"]) simp_all
  then have asked: "asks tape_protocol ?S ?q h (Inr (query_marked r)) h" by (simp add: asks_numerator)
  have "query_marked r = query_marked (Query_new\<lparr>q_op := ID2STR, q_strings := [''y'', ''x'']\<rparr>)"
    using answer [OF _ _ asked, of "[''y'', ''x'']"] by (simp add: demo_table_db_simps)
  then have "q_strings (query_marked r) = [''y'', ''x'']" by simp
  with main asked show ?thesis by blast
qed

end
