(* ===== verification/Concurrent_Client.thy ===== *)
theory Concurrent_Client
  imports Thrift_Service
begin

text \<open>
  gen-cpp/Numerator.cpp: \<open>NumeratorConcurrentClient\<close>, the client that several threads share.
  Replies may come in any order; a thread that reads the header of somebody else's reply
  posts it and waits until others have done their work.
\<close>

section \<open>The synchronisation of the Thrift library\<close>

text \<open>
  \<open>TConcurrentClientSyncInfo\<close> and its sentries are library code: a parameter of the model.  A
  value of \<open>'s\<close> is the object \<open>sync_\<close>.  The calls that give a mutex away or wait for one let
  other threads run, which changes the connection as well; they need not return.  \<open>held\<close> is no
  operation: it is the header that was posted and not yet fetched.
\<close>

type_synonym message_header = "string \<times> message_type \<times> 32 word"

record ('s, 'p) sync_info =
  generateSeqId :: "'s \<Rightarrow> (texc + 32 word) \<times> 's"
  getPending :: "'s \<Rightarrow> (texc + message_header option) \<times> 's"
  updatePending :: "message_header \<Rightarrow> 's \<Rightarrow> (texc + unit) \<times> 's"
  waitForWork :: "32 word \<Rightarrow> 's \<times> 'p \<Rightarrow> ((texc + unit) \<times> 's \<times> 'p) option"
  send_sentry :: "'s \<times> 'p \<Rightarrow> ('s \<times> 'p) option"
  send_done :: "bool \<Rightarrow> 's \<Rightarrow> 's"
  recv_sentry :: "32 word \<Rightarrow> 's \<times> 'p \<Rightarrow> ('s \<times> 'p) option"
  recv_done :: "32 word \<Rightarrow> bool \<Rightarrow> 's \<Rightarrow> 's"
  held :: "'s \<Rightarrow> message_header option"

text \<open>
  How a call ends.  \<open>Result\<close> and \<open>Thrown\<close> leave the connection usable; after \<open>Broken\<close> the
  sentry was not committed, and what was left of the message is nobody's.
\<close>

datatype ('p, 'a) received = Result 'a 'p | Thrown texc 'p | Broken texc

fun committed :: "('p, 'a) received \<Rightarrow> bool" where
  "committed (Broken e) = False"
| "committed _ = True"

section \<open>Sending\<close>

text \<open>What the four \<open>send\<close> functions share; \<open>cs\<close> is the written argument struct.\<close>

definition send_concurrent ::
  "'p tprotocol \<Rightarrow> ('s, 'p) sync_info \<Rightarrow> string \<Rightarrow> wcall list \<Rightarrow> 's \<Rightarrow> 'p \<Rightarrow>
     (('p, 32 word) received \<times> 's) option" where
  "send_concurrent P S name cs s p =
     (case generateSeqId S s of
        (Inl e, s1) \<Rightarrow> Some (Thrown e p, s1)
      | (Inr cseqid, s1) \<Rightarrow>
          (case send_sentry S (s1, p) of
             None \<Rightarrow> None
           | Some (s2, p2) \<Rightarrow>
               (case emit_all P (write_message name T_CALL cseqid cs) p2 of
                  Inl e \<Rightarrow> Some (Broken e, send_done S False s2)
                | Inr p3 \<Rightarrow> Some (Result cseqid p3, send_done S True s2))))"

section \<open>Receiving\<close>

text \<open>
  What is done with the reply to the own call, once its header is known: \<open>body\<close> reads the
  result struct and \<open>finish\<close> looks at its fields.
\<close>

definition recv_reply ::
  "'p tprotocol \<Rightarrow> string \<Rightarrow> ('p, 'r) rd \<Rightarrow> ('r \<Rightarrow> 'p \<Rightarrow> ('p, 'a) received) \<Rightarrow>
     string \<Rightarrow> message_type \<Rightarrow> 'p \<Rightarrow> ('p, 'a) received option" where
  "recv_reply P name body finish fname mtype p =
     (if mtype = T_EXCEPTION
      then
        (case read_message P (call (readAppExc P)) p of
           None \<Rightarrow> None
         | Some (Inl e) \<Rightarrow> Some (Broken e)
         | Some (Inr ((t, m), p1)) \<Rightarrow> Some (Thrown (TApplicationException t m) p1))
      else
        (case then_rd (if mtype \<noteq> T_REPLY then discard P else return ())
                (if fname \<noteq> name
                 then then_rd (discard P) (throw (TProtocolException INVALID_DATA))
                 else read_message P body) p of
           None \<Rightarrow> None
         | Some (Inl e) \<Rightarrow> Some (Broken e)
         | Some (Inr (result, p1)) \<Rightarrow> Some (finish result p1)))"

text \<open>One turn of the loop: up to its end, or to the point where it waits for the others.\<close>

datatype ('p, 'a) turn = Finished "('p, 'a) received" | Posted 'p

definition recv_turn ::
  "'p tprotocol \<Rightarrow> ('s, 'p) sync_info \<Rightarrow> (string \<Rightarrow> message_type \<Rightarrow> 'p \<Rightarrow> ('p, 'a) received option) \<Rightarrow>
     32 word \<Rightarrow> 's \<Rightarrow> 'p \<Rightarrow> (('p, 'a) turn \<times> 's) option" where
  "recv_turn P S reply seqid s p =
     (case getPending S s of
        (Inl e, s1) \<Rightarrow> Some (Finished (Broken e), s1)
      | (Inr got, s1) \<Rightarrow>
          (case (case got of Some header \<Rightarrow> Inr (header, p) | None \<Rightarrow> readMessageBegin P p) of
             Inl e \<Rightarrow> Some (Finished (Broken e), s1)
           | Inr ((fname, mtype, rseqid), p1) \<Rightarrow>
               if seqid = rseqid then map_option (\<lambda>r. (Finished r, s1)) (reply fname mtype p1)
               else
                 (case updatePending S (fname, mtype, rseqid) s1 of
                    (Inl e, s2) \<Rightarrow> Some (Finished (Broken e), s2)
                  | (Inr _, s2) \<Rightarrow> Some (Posted p1, s2))))"

partial_function (option) recv_loop ::
  "'p tprotocol \<Rightarrow> ('s, 'p) sync_info \<Rightarrow> (string \<Rightarrow> message_type \<Rightarrow> 'p \<Rightarrow> ('p, 'a) received option) \<Rightarrow>
     32 word \<Rightarrow> 's \<Rightarrow> 'p \<Rightarrow> (('p, 'a) received \<times> 's) option" where
  "recv_loop P S reply seqid s p =
     (case recv_turn P S reply seqid s p of
        None \<Rightarrow> None
      | Some (Finished r, s1) \<Rightarrow> Some (r, s1)
      | Some (Posted p1, s1) \<Rightarrow>
          (case waitForWork S seqid (s1, p1) of
             None \<Rightarrow> None
           | Some (Inl e, s2, p2) \<Rightarrow> Some (Broken e, s2)
           | Some (Inr _, s2, p2) \<Rightarrow> recv_loop P S reply seqid s2 p2))"

text \<open>The sentry: its constructor takes the read mutex, its destructor runs on every way out.\<close>

definition recv_concurrent ::
  "'p tprotocol \<Rightarrow> ('s, 'p) sync_info \<Rightarrow> (string \<Rightarrow> message_type \<Rightarrow> 'p \<Rightarrow> ('p, 'a) received option) \<Rightarrow>
     32 word \<Rightarrow> 's \<Rightarrow> 'p \<Rightarrow> (('p, 'a) received \<times> 's) option" where
  "recv_concurrent P S reply seqid s p =
     (case recv_sentry S seqid (s, p) of
        None \<Rightarrow> None
      | Some (s1, p1) \<Rightarrow>
          map_option (\<lambda>(r, s2). (r, recv_done S seqid (committed r) s2))
            (recv_loop P S reply seqid s1 p1))"

definition both ::
  "(('p, 32 word) received \<times> 's) option \<Rightarrow> (32 word \<Rightarrow> 's \<Rightarrow> 'p \<Rightarrow> (('p, 'a) received \<times> 's) option) \<Rightarrow>
     (('p, 'a) received \<times> 's) option" where
  "both sending receive =
     (case sending of
        None \<Rightarrow> None
      | Some (Result seqid p1, s1) \<Rightarrow> receive seqid s1 p1
      | Some (Thrown e p1, s1) \<Rightarrow> Some (Thrown e p1, s1)
      | Some (Broken e, s1) \<Rightarrow> Some (Broken e, s1))"

section \<open>The four methods\<close>

definition NumeratorConcurrentClient_send_query ::
  "'p tprotocol \<Rightarrow> ('s, 'p) sync_info \<Rightarrow> query \<Rightarrow> 's \<Rightarrow> 'p \<Rightarrow> (('p, 32 word) received \<times> 's) option" where
  "NumeratorConcurrentClient_send_query P S request =
     send_concurrent P S ''query'' (Numerator_query_pargs_write request)"

definition query_finish :: "query_result \<Rightarrow> 'p \<Rightarrow> ('p, query) received" where
  "query_finish result p =
     (if r_isset_success result then Result (r_success result) p
      else if r_isset_exc result then Thrown (Declared (r_exc result)) p
      else Broken (TApplicationException MISSING_RESULT ''query failed: unknown result''))"

definition query_reply ::
  "'p tprotocol \<Rightarrow> query \<Rightarrow> string \<Rightarrow> message_type \<Rightarrow> 'p \<Rightarrow> ('p, query) received option" where
  "query_reply P ret =
     recv_reply P ''query''
       (Numerator_query_presult_read P (Numerator_query_result_new\<lparr>r_success := ret\<rparr>)) query_finish"

definition NumeratorConcurrentClient_recv_query ::
  "'p tprotocol \<Rightarrow> ('s, 'p) sync_info \<Rightarrow> query \<Rightarrow> 32 word \<Rightarrow> 's \<Rightarrow> 'p \<Rightarrow> (('p, query) received \<times> 's) option" where
  "NumeratorConcurrentClient_recv_query P S ret = recv_concurrent P S (query_reply P ret)"

definition NumeratorConcurrentClient_query ::
  "'p tprotocol \<Rightarrow> ('s, 'p) sync_info \<Rightarrow> query \<Rightarrow> query \<Rightarrow> 's \<Rightarrow> 'p \<Rightarrow> (('p, query) received \<times> 's) option" where
  "NumeratorConcurrentClient_query P S ret request s p =
     both (NumeratorConcurrentClient_send_query P S request s p) (NumeratorConcurrentClient_recv_query P S ret)"

definition void_finish :: "unit \<Rightarrow> 'p \<Rightarrow> ('p, unit) received" where
  "void_finish result p = Result () p"

definition NumeratorConcurrentClient_send_ping ::
  "'p tprotocol \<Rightarrow> ('s, 'p) sync_info \<Rightarrow> 's \<Rightarrow> 'p \<Rightarrow> (('p, 32 word) received \<times> 's) option" where
  "NumeratorConcurrentClient_send_ping P S = send_concurrent P S ''ping'' (Numerator_ping_pargs_write ())"

definition NumeratorConcurrentClient_recv_ping ::
  "'p tprotocol \<Rightarrow> ('s, 'p) sync_info \<Rightarrow> 32 word \<Rightarrow> 's \<Rightarrow> 'p \<Rightarrow> (('p, unit) received \<times> 's) option" where
  "NumeratorConcurrentClient_recv_ping P S =
     recv_concurrent P S (recv_reply P ''ping'' (Numerator_ping_presult_read P ()) void_finish)"

definition NumeratorConcurrentClient_ping ::
  "'p tprotocol \<Rightarrow> ('s, 'p) sync_info \<Rightarrow> 's \<Rightarrow> 'p \<Rightarrow> (('p, unit) received \<times> 's) option" where
  "NumeratorConcurrentClient_ping P S s p =
     both (NumeratorConcurrentClient_send_ping P S s p) (NumeratorConcurrentClient_recv_ping P S)"

definition NumeratorConcurrentClient_send_disable_s2i ::
  "'p tprotocol \<Rightarrow> ('s, 'p) sync_info \<Rightarrow> 's \<Rightarrow> 'p \<Rightarrow> (('p, 32 word) received \<times> 's) option" where
  "NumeratorConcurrentClient_send_disable_s2i P S =
     send_concurrent P S ''disable_s2i'' (Numerator_disable_s2i_pargs_write ())"

definition NumeratorConcurrentClient_recv_disable_s2i ::
  "'p tprotocol \<Rightarrow> ('s, 'p) sync_info \<Rightarrow> 32 word \<Rightarrow> 's \<Rightarrow> 'p \<Rightarrow> (('p, unit) received \<times> 's) option" where
  "NumeratorConcurrentClient_recv_disable_s2i P S =
     recv_concurrent P S (recv_reply P ''disable_s2i'' (Numerator_disable_s2i_presult_read P ()) void_finish)"

definition NumeratorConcurrentClient_disable_s2i ::
  "'p tprotocol \<Rightarrow> ('s, 'p) sync_info \<Rightarrow> 's \<Rightarrow> 'p \<Rightarrow> (('p, unit) received \<times> 's) option" where
  "NumeratorConcurrentClient_disable_s2i P S s p =
     both (NumeratorConcurrentClient_send_disable_s2i P S s p) (NumeratorConcurrentClient_recv_disable_s2i P S)"

definition NumeratorConcurrentClient_send_enable_s2i ::
  "'p tprotocol \<Rightarrow> ('s, 'p) sync_info \<Rightarrow> 's \<Rightarrow> 'p \<Rightarrow> (('p, 32 word) received \<times> 's) option" where
  "NumeratorConcurrentClient_send_enable_s2i P S =
     send_concurrent P S ''enable_s2i'' (Numerator_enable_s2i_pargs_write ())"

definition NumeratorConcurrentClient_recv_enable_s2i ::
  "'p tprotocol \<Rightarrow> ('s, 'p) sync_info \<Rightarrow> 32 word \<Rightarrow> 's \<Rightarrow> 'p \<Rightarrow> (('p, unit) received \<times> 's) option" where
  "NumeratorConcurrentClient_recv_enable_s2i P S =
     recv_concurrent P S (recv_reply P ''enable_s2i'' (Numerator_enable_s2i_presult_read P ()) void_finish)"

definition NumeratorConcurrentClient_enable_s2i ::
  "'p tprotocol \<Rightarrow> ('s, 'p) sync_info \<Rightarrow> 's \<Rightarrow> 'p \<Rightarrow> (('p, unit) received \<times> 's) option" where
  "NumeratorConcurrentClient_enable_s2i P S s p =
     both (NumeratorConcurrentClient_send_enable_s2i P S s p) (NumeratorConcurrentClient_recv_enable_s2i P S)"

section \<open>Messages on the shared connection\<close>

type_synonym message = "string \<times> message_type \<times> 32 word \<times> wcall list"

fun message_toks :: "message \<Rightarrow> wcall list" where
  "message_toks (n, t, i, b) = WMessageBegin n t i # b @ [WMessageEnd]"

fun message_id :: "message \<Rightarrow> 32 word" where
  "message_id (n, t, i, b) = i"

fun message_body :: "message \<Rightarrow> wcall list" where
  "message_body (n, t, i, b) = b"

definition mine :: "32 word \<Rightarrow> message list \<Rightarrow> message list" where
  "mine seqid ms = filter (\<lambda>m. message_id m = seqid) ms"

text \<open>
  The replies that are still to be handed out: those in the input, the first of them without
  its header when that is posted.
\<close>

definition inbox :: "'p tprotocol \<Rightarrow> ('s, 'p) sync_info \<Rightarrow> 's \<Rightarrow> 'p \<Rightarrow> message list \<Rightarrow> bool" where
  "inbox P S s p ms \<longleftrightarrow>
     (\<forall>m \<in> set ms. WMessageEnd \<notin> set (message_body m)) \<and>
     (case held S s of None \<Rightarrow> [] | Some (n, t, i) \<Rightarrow> [WMessageBegin n t i]) @ pending P p =
       concat (map message_toks ms)"

text \<open>
  Documented behaviour of the synchronisation object: \<open>getPending\<close> hands out the posted header
  once, and \<open>waitForWork\<close>, called with somebody else's header posted, comes back when another
  client has taken a message.  Clients take their own replies only (\<open>turn_takes_own\<close> below).
\<close>

definition sync_ok :: "'p tprotocol \<Rightarrow> ('s, 'p) sync_info \<Rightarrow> bool" where
  "sync_ok P S \<longleftrightarrow>
     (\<forall>s h s'. getPending S s = (Inr h, s') \<longrightarrow> h = held S s \<and> held S s' = None) \<and>
     (\<forall>h s s'. updatePending S h s = (Inr (), s') \<longrightarrow> held S s' = Some h) \<and>
     (\<forall>seqid s p s' p' n t i ms.
        waitForWork S seqid (s, p) = Some (Inr (), s', p') \<longrightarrow> held S s = Some (n, t, i) \<longrightarrow>
        i \<noteq> seqid \<longrightarrow> inbox P S s p ms \<longrightarrow>
        (\<exists>ms'. inbox P S s' p' ms' \<and> length ms' < length ms \<and> mine seqid ms' = mine seqid ms)) \<and>
     (\<forall>seqid s p s' p' ms.
        recv_sentry S seqid (s, p) = Some (s', p') \<longrightarrow> inbox P S s p ms \<longrightarrow>
        (\<exists>ms'. inbox P S s' p' ms' \<and> mine seqid ms' = mine seqid ms))"

text \<open>Nothing fails: the connection is alive, and whoever waits is woken up in the end.\<close>

definition sync_alive :: "('s, 'p) sync_info \<Rightarrow> bool" where
  "sync_alive S \<longleftrightarrow>
     (\<forall>s. \<exists>h s'. getPending S s = (Inr h, s')) \<and>
     (\<forall>h s. \<exists>s'. updatePending S h s = (Inr (), s')) \<and>
     (\<forall>seqid w. \<exists>w'. waitForWork S seqid w = Some (Inr (), w')) \<and>
     (\<forall>seqid w. recv_sentry S seqid w \<noteq> None)"

lemma mine_Cons [simp]:
  "mine seqid [] = []"
  "mine seqid (m # ms) = (if message_id m = seqid then m # mine seqid ms else mine seqid ms)"
  by (simp_all add: mine_def)

lemma inbox_next:
  assumes "protocol_ok P" and "sync_ok P S" and "inbox P S s p ((n, t, i, b) # ms)"
    and "getPending S s = (Inr got, s1)"
  shows "held S s1 = None \<and>
         (\<exists>p1. (case got of Some header \<Rightarrow> Inr (header, p) | None \<Rightarrow> readMessageBegin P p) =
                 Inr ((n, t, i), p1) \<and>
               pending P p1 = b @ WMessageEnd # concat (map message_toks ms))"
proof -
  have g: "got = held S s" "held S s1 = None" using assms(2,4) by (simp_all add: sync_ok_def)
  show ?thesis
  proof (cases got)
    case None
    then have "pending P p = [WMessageBegin n t i] @ (b @ WMessageEnd # concat (map message_toks ms))"
      using assms(3) g(1) by (simp add: inbox_def)
    then show ?thesis
      using protocol_takes(1) [OF assms(1), of n t i] None g(2) unfolding takes_def by fastforce
  next
    case (Some h)
    then show ?thesis using assms(3) g by (cases h) (auto simp: inbox_def)
  qed
qed

text \<open>A turn with the own reply in front deals with it; any other turn posts the header.\<close>

lemma turn_own:
  assumes "protocol_ok P" and "sync_ok P S" and "sync_alive S"
    and "inbox P S s p ((n, t, seqid, b) # ms)"
  obtains s1 p1 where "recv_turn P S reply seqid s p = map_option (\<lambda>r. (Finished r, s1)) (reply n t p1)"
    and "pending P p1 = b @ WMessageEnd # concat (map message_toks ms)" and "held S s1 = None"
proof -
  obtain got s1 where g: "getPending S s = (Inr got, s1)" using assms(3) unfolding sync_alive_def by blast
  from inbox_next [OF assms(1,2,4) g] g that show ?thesis by (auto simp: recv_turn_def)
qed

lemma turn_foreign:
  assumes "protocol_ok P" and "sync_ok P S" and "sync_alive S"
    and "inbox P S s p ((n, t, i, b) # ms)" and "i \<noteq> seqid"
  obtains s1 p1 where "recv_turn P S reply seqid s p = Some (Posted p1, s1)"
    and "held S s1 = Some (n, t, i)" and "inbox P S s1 p1 ((n, t, i, b) # ms)"
proof -
  obtain got s1 where g: "getPending S s = (Inr got, s1)" using assms(3) unfolding sync_alive_def by blast
  obtain s2 where u: "updatePending S (n, t, i) s1 = (Inr (), s2)"
    using assms(3) unfolding sync_alive_def by blast
  then have h: "held S s2 = Some (n, t, i)" using assms(2) unfolding sync_ok_def by metis
  from inbox_next [OF assms(1,2,4) g] obtain p1 where
    "(case got of Some header \<Rightarrow> Inr (header, p) | None \<Rightarrow> readMessageBegin P p) = Inr ((n, t, i), p1)"
    "pending P p1 = b @ WMessageEnd # concat (map message_toks ms)" by blast
  moreover from this have "inbox P S s2 p1 ((n, t, i, b) # ms)"
    using h assms(4) by (simp add: inbox_def)
  ultimately show ?thesis using that g u h assms(5) by (auto simp: recv_turn_def)
qed

lemma recv_loop_routed:
  assumes "protocol_ok P" and "sync_ok P S" and "sync_alive S"
    and "inbox P S s p ms" and "mine seqid ms = (n, t, i, b) # own"
  shows "\<exists>s1 p1 ms1. recv_loop P S reply seqid s p = map_option (\<lambda>r. (r, s1)) (reply n t p1) \<and>
           pending P p1 = b @ WMessageEnd # concat (map message_toks ms1) \<and> held S s1 = None"
  using assms(4,5)
proof (induction "length ms" arbitrary: s p ms rule: less_induct)
  case less
  then obtain n' t' i' b' ms' where ms: "ms = (n', t', i', b') # ms'" by (cases ms) auto
  show ?case
  proof (cases "i' = seqid")
    case True
    then have eq: "n' = n" "t' = t" "b' = b" using less.prems(2) ms by auto
    obtain s1 p1 where "recv_turn P S reply seqid s p = map_option (\<lambda>r. (Finished r, s1)) (reply n t p1)"
      "pending P p1 = b @ WMessageEnd # concat (map message_toks ms')" "held S s1 = None"
      by (rule turn_own [OF assms(1-3)]) (use less.prems(1) ms True eq in auto)
    then show ?thesis
      by (intro exI [of _ s1] exI [of _ p1] exI [of _ ms'])
         (auto simp: recv_loop.simps [of P S reply seqid s p] split: option.split)
  next
    case False
    obtain s1 p1 where turn: "recv_turn P S reply seqid s p = Some (Posted p1, s1)"
      "held S s1 = Some (n', t', i')" "inbox P S s1 p1 ms"
      by (rule turn_foreign [OF assms(1-3)]) (use less.prems(1) ms False in auto)
    obtain s2 p2 where w: "waitForWork S seqid (s1, p1) = Some (Inr (), s2, p2)"
      using assms(3) unfolding sync_alive_def by (metis prod.exhaust)
    from assms(2) w turn(2,3) False obtain ms2 where
      "inbox P S s2 p2 ms2" "length ms2 < length ms" "mine seqid ms2 = mine seqid ms"
      unfolding sync_ok_def by metis
    with less.hyps [of ms2 s2 p2] less.prems(2) turn(1) w show ?thesis
      by (simp add: recv_loop.simps [of P S reply seqid s p])
  qed
qed

lemma recv_concurrent_routed:
  assumes "protocol_ok P" and "sync_ok P S" and "sync_alive S"
    and "inbox P S s p ms" and "mine seqid ms = (n, t, i, b) # own"
  shows "\<exists>s1 p1 ms1.
           recv_concurrent P S reply seqid s p =
             map_option (\<lambda>r. (r, recv_done S seqid (committed r) s1)) (reply n t p1) \<and>
           pending P p1 = b @ WMessageEnd # concat (map message_toks ms1)"
proof -
  obtain s0 p0 where r: "recv_sentry S seqid (s, p) = Some (s0, p0)"
    using assms(3) unfolding sync_alive_def by (metis option.exhaust prod.exhaust)
  obtain ms0 where i: "inbox P S s0 p0 ms0" "mine seqid ms0 = mine seqid ms"
    using assms(2,4) r unfolding sync_ok_def by metis
  obtain s1 p1 ms1 where l: "recv_loop P S reply seqid s0 p0 = map_option (\<lambda>r. (r, s1)) (reply n t p1)"
    "pending P p1 = b @ WMessageEnd # concat (map message_toks ms1)"
    using recv_loop_routed [OF assms(1-3) i(1), of seqid n t "i" b own reply] i(2) assms(5) by auto
  then show ?thesis
    by (intro exI [of _ s1] exI [of _ p1] exI [of _ ms1])
       (simp add: recv_concurrent_def r option.map_comp comp_def)
qed

section \<open>The reply to a query\<close>

lemma query_reply_struct:
  assumes "protocol_ok P" and "result_fits r"
    and "pending P p = Numerator_query_result_write r @ WMessageEnd # rest"
  shows "\<exists>p'. query_reply P ret ''query'' T_REPLY p = Some (query_finish (result_marked ret r) p') \<and>
           pending P p' = rest"
proof -
  obtain p' where p': "read_message P (Numerator_query_presult_read P
      (Numerator_query_result_new\<lparr>r_success := ret\<rparr>)) p = Some (Inr (result_marked ret r, p'))"
    "pending P p' = rest"
    using query_rpc.result.body_reads_back [OF assms(1,2), of ret] assms(3) unfolding reads_def by fastforce
  then show ?thesis
    by (intro exI [of _ p'])
       (simp add: query_reply_def recv_reply_def then_rd_def bind_rd_def return_def)
qed

lemma recv_reply_fault:
  assumes "protocol_ok P" and "pending P p = WAppExc t m # WMessageEnd # rest"
  shows "\<exists>p'. recv_reply P name body finish fname T_EXCEPTION p =
           Some (Thrown (TApplicationException t m) p') \<and> pending P p' = rest"
proof -
  have "reads P (read_message P (call (readAppExc P))) ([WAppExc t m] @ [WMessageEnd]) (t, m)"
    by (rule reads_message [OF assms(1) protocol_reads(13) [OF assms(1)]])
  with assms(2) obtain p' where
    "read_message P (call (readAppExc P)) p = Some (Inr ((t, m), p'))" "pending P p' = rest"
    unfolding reads_def by fastforce
  then show ?thesis by (intro exI [of _ p']) (simp add: recv_reply_def)
qed

text \<open>What the caller gets for each way the handler can end, on a usable connection.\<close>

fun query_received :: "(exc \<Rightarrow> string) \<Rightarrow> query call \<Rightarrow> 'p \<Rightarrow> ('p, query) received option" where
  "query_received what (Returned resp) p = Some (Result (query_marked resp) p)"
| "query_received what (ThrownNE x) p = Some (Thrown (Declared (x\<lparr>ne_isset_message := True\<rparr>)) p)"
| "query_received what (ThrownExc x) p = Some (Thrown (TApplicationException UNKNOWN (what x)) p)"
| "query_received what (Undefined u) p = None"
| "query_received what ProcessExit p = None"

lemma query_reply_outcome:
  assumes "protocol_ok P" and "reply_body what out = Some (t, b)"
    and "\<And>resp. out = Returned resp \<Longrightarrow> query_fits resp"
    and "pending P p = b @ WMessageEnd # rest"
  shows "\<exists>p'. query_reply P ret ''query'' t p = query_received what out p' \<and>
           query_received what out p' \<noteq> None \<and> pending P p' = rest"
proof (cases out)
  case (Returned resp)
  with query_reply_struct [OF assms(1), of "Numerator_query_result_new\<lparr>r_success := resp, r_isset_success := True\<rparr>"]
    assms(2-4) show ?thesis
    by (fastforce simp: result_fits_def result_marked_def query_finish_def Let_def)
next
  case (ThrownNE x)
  with query_reply_struct [OF assms(1), of "Numerator_query_result_new\<lparr>r_exc := x, r_isset_exc := True\<rparr>"]
    assms(2-4) show ?thesis
    by (fastforce simp: result_fits_def result_marked_def query_finish_def Let_def Numerator_query_result_new_def)
next
  case (ThrownExc x)
  with recv_reply_fault [OF assms(1), of p UNKNOWN "what x" rest] assms(2-4)
  show ?thesis by (fastforce simp: query_reply_def)
qed (use assms(2) in simp_all)

lemma send_query_message:
  assumes "protocol_ok P"
    and "NumeratorConcurrentClient_send_query P S request s p = Some (Result seqid p1, s1)"
  shows "\<exists>before. sent P p1 = before @ message_toks (''query'', T_CALL, seqid, Numerator_query_pargs_write request)"
proof -
  obtain s0 s2 p2 where g: "generateSeqId S s = (Inr seqid, s0)" "send_sentry S (s0, p) = Some (s2, p2)"
    "emit_all P (write_message ''query'' T_CALL seqid (Numerator_query_pargs_write request)) p2 = Inr p1"
    using assms(2) unfolding NumeratorConcurrentClient_send_query_def send_concurrent_def
    by (auto split: prod.splits sum.splits option.splits)
  from query_rpc.args.message_sent [OF assms(1) g(3)] show ?thesis by auto
qed

text \<open>
  A turn takes the own reply or nothing: when every reply to the calls of \<open>seqid\<close> is read to
  its end, a turn of this client leaves the inbox as it is, or without its first message,
  and that one was the client's own.
\<close>

fun connection :: "('p, 'a) received \<Rightarrow> 'p option" where
  "connection (Result a p) = Some p"
| "connection (Thrown e p) = Some p"
| "connection (Broken e) = None"

lemma turn_takes_own:
  assumes "protocol_ok P" and "sync_ok P S" and "sync_alive S" and "inbox P S s p ms" and "ms \<noteq> []"
    and "\<And>n t b q rest. (n, t, seqid, b) \<in> set ms \<Longrightarrow> pending P q = b @ WMessageEnd # rest \<Longrightarrow>
           \<exists>r q'. reply n t q = Some r \<and> connection r = Some q' \<and> pending P q' = rest"
  shows "\<exists>turn s1. recv_turn P S reply seqid s p = Some (turn, s1) \<and>
    (case turn of
       Posted p1 \<Rightarrow> inbox P S s1 p1 ms
     | Finished r \<Rightarrow> message_id (hd ms) = seqid \<and>
         (\<exists>p1. connection r = Some p1 \<and> inbox P S s1 p1 (tl ms)))"
proof -
  obtain n t i b ms' where ms: "ms = (n, t, i, b) # ms'" using assms(5) by (metis neq_Nil_conv prod_cases4)
  show ?thesis
  proof (cases "i = seqid")
    case True
    obtain s1 p1 where t1: "recv_turn P S reply seqid s p = map_option (\<lambda>r. (Finished r, s1)) (reply n t p1)"
      "pending P p1 = b @ WMessageEnd # concat (map message_toks ms')" "held S s1 = None"
      by (rule turn_own [OF assms(1-3)]) (use assms(4) ms True in auto)
    obtain r q' where "reply n t p1 = Some r" "connection r = Some q'" "pending P q' = concat (map message_toks ms')"
      using assms(6) [of n t b, OF _ t1(2)] ms True by auto
    with t1 assms(4) show ?thesis using ms True by (auto simp: inbox_def)
  next
    case False
    obtain s1 p1 where "recv_turn P S reply seqid s p = Some (Posted p1, s1)"
      "inbox P S s1 p1 ((n, t, i, b) # ms')"
      by (rule turn_foreign [OF assms(1-3) _ False]) (use assms(4) ms in auto)
    then show ?thesis using ms by simp
  qed
qed

section \<open>Properties\<close>

text \<open>
  C16. The shared client finds its own reply whatever the order of the replies.  When
  \<open>send_query\<close> went through, the call with the sequence number that it returned is the last
  thing sent.  When the processor serves this call, and its reply is the only one with this
  number among the replies that come, in any order and with the other clients at work, then
  \<open>recv_query\<close> returns, and it ends the way the handler did, on a connection from which
  exactly this reply and what others took is gone.
\<close>

theorem concurrent_query_correct:
  assumes "protocol_ok P" and "protocol_no_error P" and "sync_ok P S" and "sync_alive S"
    and "query_fits request"
    and "NumeratorConcurrentClient_send_query P S request s p = Some (Result seqid p1, s1)"
    and "pending P srv = message_toks (''query'', T_CALL, seqid, Numerator_query_pargs_write request)"
    and "sent P srv = []" and "readMessageBegin P srv = Inr ((fname, mtype, i), srv0)"
    and "iface_query I Query_new (query_marked request) h = (out, h')"
    and "NumeratorProcessor_dispatchCall P what I fname i srv0 h = (Replied srv1, h1)"
    and "\<And>resp. out = Returned resp \<Longrightarrow> query_fits resp"
    and "inbox P S s2 p2 ms" and "mine seqid ms = [m]" and "message_toks m = sent P srv1"
  shows "(\<exists>before. sent P p1 = before @ pending P srv) \<and> h1 = h' \<and>
         (\<exists>res s3 p3 ms3. NumeratorConcurrentClient_recv_query P S ret seqid s2 p2 = Some (res, s3) \<and>
            query_received what out p3 = Some res \<and> pending P p3 = concat (map message_toks ms3))"
proof -
  have "pending P srv = [WMessageBegin ''query'' T_CALL seqid] @ (Numerator_query_pargs_write request @ [WMessageEnd])"
    using assms(7) by simp
  with protocol_takes(1) [OF assms(1), of "''query''" T_CALL seqid] assms(8,9)
  have arr: "fname = ''query''" "i = seqid" "sent P srv0 = []"
    "pending P srv0 = Numerator_query_pargs_write request @ [WMessageEnd]"
    unfolding takes_def by fastforce+
  note disp = assms(11) [unfolded arr(1,2)]
  obtain t b where body: "reply_body what out = Some (t, b)"
    using query_not_served [OF assms(1,5) arr(4) assms(10)] disp by (metis not_None_eq surj_pair)
  obtain srv' where "NumeratorProcessor_dispatchCall P what I ''query'' seqid srv0 h = (Replied srv', h')"
    "sent P srv' = WMessageBegin ''query'' t seqid # b @ [WMessageEnd]"
    using query_served [OF assms(1,2,5) arr(4,3) assms(10) body assms(12)] by blast
  with disp have h1: "h1 = h'" and sent1: "sent P srv1 = message_toks (''query'', t, seqid, b)" by simp_all
  have m: "m = (''query'', t, seqid, b)" using sent1 assms(15) by (cases m) simp
  obtain s3 p3 ms3 where r: "NumeratorConcurrentClient_recv_query P S ret seqid s2 p2 =
      map_option (\<lambda>r. (r, recv_done S seqid (committed r) s3)) (query_reply P ret ''query'' t p3)"
    "pending P p3 = b @ WMessageEnd # concat (map message_toks ms3)"
    using recv_concurrent_routed [OF assms(1,3,4,13), of seqid "''query''" t seqid b "[]" "query_reply P ret"]
      assms(14) m unfolding NumeratorConcurrentClient_recv_query_def by blast
  obtain p4 where "query_reply P ret ''query'' t p3 = query_received what out p4"
    "query_received what out p4 \<noteq> None" "pending P p4 = concat (map message_toks ms3)"
    using query_reply_outcome [OF assms(1) body assms(12) r(2)] by blast
  with r(1) h1 send_query_message [OF assms(1,6)] assms(7) show ?thesis by auto
qed

text \<open>
  A synchronisation object for the witness: whoever waits is woken up when somebody else has
  read the posted message to its end.
\<close>

definition demo_sync :: "(message_header option, tape) sync_info" where
  "demo_sync =
     \<lparr>generateSeqId = (\<lambda>s. (Inr 7, s)),
      getPending = (\<lambda>s. (Inr s, None)),
      updatePending = (\<lambda>h s. (Inr (), Some h)),
      waitForWork = (\<lambda>seqid (s, p).
        Some (Inr (), None, (tl (dropWhile (\<lambda>c. c \<noteq> WMessageEnd) (fst p)), snd p))),
      send_sentry = Some,
      send_done = (\<lambda>ok s. s),
      recv_sentry = (\<lambda>seqid w. Some w),
      recv_done = (\<lambda>seqid ok s. s),
      held = (\<lambda>s. s)\<rparr>"

lemma demo_sync_wait:
  assumes "inbox tape_protocol demo_sync (Some (n, t, i)) p ms" and "i \<noteq> seqid"
  shows "\<exists>ms'. inbox tape_protocol demo_sync None (tl (dropWhile (\<lambda>c. c \<noteq> WMessageEnd) (fst p)), w) ms' \<and>
           length ms' < length ms \<and> mine seqid ms' = mine seqid ms"
proof -
  obtain n' t' i' b ms' where ms: "ms = (n', t', i', b) # ms'"
    using assms(1) by (cases ms) (auto simp: inbox_def demo_sync_def)
  have b: "WMessageEnd \<notin> set b" and i: "i' = i"
    and p: "fst p = b @ WMessageEnd # concat (map message_toks ms')"
    using assms(1) ms by (simp_all add: inbox_def demo_sync_def)
  have "dropWhile (\<lambda>c. c \<noteq> WMessageEnd) (fst p) = WMessageEnd # concat (map message_toks ms')"
    unfolding p using b by (induction b) auto
  with assms ms i show ?thesis by (intro exI [of _ ms']) (simp add: inbox_def demo_sync_def)
qed

lemma demo_sync_ok [simp]: "sync_ok tape_protocol demo_sync"
  unfolding sync_ok_def using demo_sync_wait
  by (fastforce simp: demo_sync_def)

lemma demo_sync_alive [simp]: "sync_alive demo_sync"
  by (simp add: sync_alive_def demo_sync_def split_def)

lemma toks_no_end:
  "WMessageEnd \<notin> set (toks v)" "WMessageEnd \<notin> set (list_toks vs)" "WMessageEnd \<notin> set (field_toks fs)"
  by (induction v and vs and fs rule: toks_list_toks_field_toks.induct) simp_all

lemma query_result_no_end: "WMessageEnd \<notin> set (Numerator_query_result_write r)"
  by (simp only: query_result_write_value toks_no_end not_False_eq_True)

theorem concurrent_query_correct_witness:
  "\<exists>p3 s3. NumeratorConcurrentClient_recv_query tape_protocol demo_sync Query_new 7 None
     (concat (map message_toks
        [(''ping'', T_REPLY, 3, Numerator_ping_result_write ()),
         (''query'', T_REPLY, 7, Numerator_query_result_write
            (Numerator_query_result_new\<lparr>r_success := Query_new, r_isset_success := True\<rparr>))]), []) =
     Some (Result (query_marked Query_new) p3, s3)"
proof -
  let ?r = "Numerator_query_result_new\<lparr>r_success := Query_new, r_isset_success := True\<rparr>"
  let ?m = "(''query'', T_REPLY, 7, Numerator_query_result_write ?r) :: message"
  let ?ms = "[(''ping'', T_REPLY, 3, Numerator_ping_result_write ()), ?m]"
  let ?args = "Numerator_query_pargs_write Query_new"
  let ?call = "message_toks (''query'', T_CALL, 7, ?args)"
  have fits: "query_fits Query_new" by (simp add: query_fits_def Query_new_def)
  have emit: "emit_all tape_protocol (write_message ''query'' T_CALL 7 ?args) ([], []) = Inr ([], ?call)"
    by (simp only: tape_emit_all write_message_def query_args_write_value) (simp add: wire_toks del: toks.simps)
  have send: "NumeratorConcurrentClient_send_query tape_protocol demo_sync Query_new None ([], []) =
      Some (Result 7 ([], ?call), None)"
    unfolding NumeratorConcurrentClient_send_query_def send_concurrent_def
    by (simp add: demo_sync_def emit)
  have null: "iface_query NumeratorNull Query_new (query_marked Query_new) () = (Returned Query_new, ())"
    by (simp add: NumeratorNull_def)
  obtain srv1 where disp: "NumeratorProcessor_dispatchCall tape_protocol (\<lambda>x. []) NumeratorNull ''query'' 7
      (?args @ [WMessageEnd], []) () = (Replied srv1, ())"
    "sent tape_protocol srv1 = message_toks ?m"
    by (rule exE [OF query_served [where seqid = 7 and what = "\<lambda>x. []" and b = "Numerator_query_result_write ?r"
        and t = T_REPLY, OF tape_protocol_ok tape_protocol_no_error fits _ _ null]]) (use fits in auto)
  have arrives: "readMessageBegin tape_protocol (?call, []) = Inr ((''query'', T_CALL, 7), (?args @ [WMessageEnd], []))"
    by (simp add: tape_readMessageBegin)
  have box: "inbox tape_protocol demo_sync None (concat (map message_toks ?ms), []) ?ms"
    by (simp add: inbox_def demo_sync_def query_result_no_end Numerator_ping_result_write_def empty_write_def)
  have own: "mine 7 ?ms = [?m]" by simp
  show ?thesis
    using concurrent_query_correct [where ret = Query_new, OF tape_protocol_ok tape_protocol_no_error demo_sync_ok
        demo_sync_alive fits send _ _ arrives null disp(1) _ box own] disp(2) fits
    by fastforce
qed

end
