(* ===== verification/Query_Values.thy ===== *)
theory Query_Values
  imports Query_Types
begin

text \<open>
  gen-cpp/numerator\_types.cpp and .h: what the generated structs have besides reading and
  writing: setters, copies, \<open>swap\<close>, comparison, printing and the names of the enum values.
  The text of a list comes from Thrift's \<open>to_string\<close>, a parameter of the model.
\<close>

section \<open>Names of the enum values\<close>

text \<open>A map that is built from an array of values and an array of names.\<close>

definition values_to_names :: "32 word list \<Rightarrow> string list \<Rightarrow> 32 word \<rightharpoonup> string" where
  "values_to_names vs names = map_of (zip vs names)"

definition Operation_VALUES_TO_NAMES :: "32 word \<rightharpoonup> string" where
  "Operation_VALUES_TO_NAMES = values_to_names [STR2ID, ID2STR] [''STR2ID'', ''ID2STR'']"

definition ErrorCode_VALUES_TO_NAMES :: "32 word \<rightharpoonup> string" where
  "ErrorCode_VALUES_TO_NAMES = values_to_names [STR2ID_QUERIES_DISABLED] [''STR2ID_QUERIES_DISABLED'']"

section \<open>Query\<close>

definition Query_set_op :: "operation \<Rightarrow> query \<Rightarrow> query" where
  "Query_set_op val q = q\<lparr>q_op := val\<rparr>"

definition Query_set_strings :: "string list \<Rightarrow> query \<Rightarrow> query" where
  "Query_set_strings val q = q\<lparr>q_strings := val\<rparr>"

definition Query_set_ids :: "num_id list \<Rightarrow> query \<Rightarrow> query" where
  "Query_set_ids val q = q\<lparr>q_ids := val\<rparr>"

definition Query_set_failures :: "failure_idx list \<Rightarrow> query \<Rightarrow> query" where
  "Query_set_failures val q = q\<lparr>q_failures := val\<rparr>"

text \<open>Members are swapped one after the other, through the two references.\<close>

definition swap_field :: "('o \<Rightarrow> 'f) \<Rightarrow> ('f \<Rightarrow> 'o \<Rightarrow> 'o) \<Rightarrow> 'o \<times> 'o \<Rightarrow> 'o \<times> 'o" where
  "swap_field get put ab = (case ab of (a, b) \<Rightarrow> (put (get b) a, put (get a) b))"

definition Query_swap :: "query \<times> query \<Rightarrow> query \<times> query" where
  "Query_swap ab =
     swap_field q_isset (\<lambda>v. q_isset_update (\<lambda>_. v))
       (swap_field q_failures (\<lambda>v. q_failures_update (\<lambda>_. v))
         (swap_field q_ids (\<lambda>v. q_ids_update (\<lambda>_. v))
           (swap_field q_strings (\<lambda>v. q_strings_update (\<lambda>_. v))
             (swap_field q_op (\<lambda>v. q_op_update (\<lambda>_. v)) ab))))"

text \<open>Assignment to an existing object; the copy constructor does the same to a new one.\<close>

definition Query_assign :: "query \<Rightarrow> query \<Rightarrow> query" where
  "Query_assign this other =
     this\<lparr>q_op := q_op other, q_strings := q_strings other, q_ids := q_ids other,
          q_failures := q_failures other, q_isset := q_isset other\<rparr>"

definition Query_copy :: "query \<Rightarrow> query" where
  "Query_copy other =
     \<lparr>q_op = q_op other, q_strings = q_strings other, q_ids = q_ids other,
      q_failures = q_failures other, q_isset = q_isset other\<rparr>"

definition Query_neq :: "query \<Rightarrow> query \<Rightarrow> bool" where
  "Query_neq a b \<longleftrightarrow> \<not> Query_eq a b"

definition Query_printTo ::
  "(string list \<Rightarrow> string) \<Rightarrow> (num_id list \<Rightarrow> string) \<Rightarrow> (failure_idx list \<Rightarrow> string) \<Rightarrow> query \<Rightarrow> string" where
  "Query_printTo show_strings show_ids show_failures q =
     ''Query('' @ ''op='' @ print_int (sint (q_op q)) @
     '', '' @ ''strings='' @ show_strings (q_strings q) @
     '', '' @ ''ids='' @ show_ids (q_ids q) @
     '', '' @ ''failures='' @ show_failures (q_failures q) @ '')''"

definition Query_output ::
  "(string list \<Rightarrow> string) \<Rightarrow> (num_id list \<Rightarrow> string) \<Rightarrow> (failure_idx list \<Rightarrow> string) \<Rightarrow>
     string \<Rightarrow> query \<Rightarrow> string" where
  "Query_output show_strings show_ids show_failures out q =
     out @ Query_printTo show_strings show_ids show_failures q"

section \<open>NumeratorException\<close>

definition NumeratorException_set_code :: "error_code \<Rightarrow> numerator_exception \<Rightarrow> numerator_exception" where
  "NumeratorException_set_code val x = x\<lparr>ne_code := val\<rparr>"

definition NumeratorException_set_message :: "string \<Rightarrow> numerator_exception \<Rightarrow> numerator_exception" where
  "NumeratorException_set_message val x = x\<lparr>ne_message := val\<rparr>"

definition NumeratorException_swap ::
  "numerator_exception \<times> numerator_exception \<Rightarrow> numerator_exception \<times> numerator_exception" where
  "NumeratorException_swap ab =
     swap_field ne_isset_message (\<lambda>v. ne_isset_message_update (\<lambda>_. v))
       (swap_field ne_message (\<lambda>v. ne_message_update (\<lambda>_. v))
         (swap_field ne_code (\<lambda>v. ne_code_update (\<lambda>_. v)) ab))"

definition NumeratorException_assign ::
  "numerator_exception \<Rightarrow> numerator_exception \<Rightarrow> numerator_exception" where
  "NumeratorException_assign this other =
     this\<lparr>ne_code := ne_code other, ne_message := ne_message other,
          ne_isset_message := ne_isset_message other\<rparr>"

definition NumeratorException_copy :: "numerator_exception \<Rightarrow> numerator_exception" where
  "NumeratorException_copy other =
     \<lparr>ne_code = ne_code other, ne_message = ne_message other,
      ne_isset_message = ne_isset_message other\<rparr>"

definition NumeratorException_neq :: "numerator_exception \<Rightarrow> numerator_exception \<Rightarrow> bool" where
  "NumeratorException_neq a b \<longleftrightarrow> \<not> NumeratorException_eq a b"

section \<open>Facts\<close>

lemma NumeratorException_values:
  "NumeratorException_swap (x, y) = (y, x) \<and> NumeratorException_assign x y = y \<and>
   NumeratorException_copy y = y"
  by (simp add: NumeratorException_swap_def swap_field_def NumeratorException_assign_def
      NumeratorException_copy_def)

lemma enum_names:
  "Operation_VALUES_TO_NAMES v = Some n \<longleftrightarrow> v = STR2ID \<and> n = ''STR2ID'' \<or> v = ID2STR \<and> n = ''ID2STR''"
  by (auto simp: Operation_VALUES_TO_NAMES_def values_to_names_def)

text \<open>
  Queries are values: \<open>swap\<close> exchanges two queries in full, their presence flags included, and
  a copied or assigned query is the original; \<open>==\<close> does not look at the flags, and the
  setters leave them alone.
\<close>

lemma Query_value_semantics:
  "Query_swap (a, b) = (b, a) \<and> Query_copy b = b \<and> Query_assign a b = b \<and>
   (Query_neq a b \<longleftrightarrow> (q_op a, q_strings a, q_ids a, q_failures a) \<noteq> (q_op b, q_strings b, q_ids b, q_failures b)) \<and>
   \<not> Query_neq (a\<lparr>q_isset := i\<rparr>) a \<and>
   Query_set_failures f (Query_set_ids n (Query_set_strings s (Query_set_op p a))) =
     \<lparr>q_op = p, q_strings = s, q_ids = n, q_failures = f, q_isset = q_isset a\<rparr>"
  by (auto simp: Query_swap_def swap_field_def Query_copy_def Query_assign_def Query_neq_def Query_eq_def
      Query_set_op_def Query_set_strings_def Query_set_ids_def Query_set_failures_def)

end
