(* ===== verification/Dump_Restore.thy ===== *)
theory Dump_Restore
  imports Disk_Storage Boost_Lib Std_Stream
begin

text \<open>
  \<open>DiskStorage::dump\<close> and \<open>DiskStorage::restore\<close> (disk\_storage.cpp).  A dump is the text
  that goes to the output stream; a restore reads the stream model of \<open>Std_Stream\<close> and
  writes to the database in batches.  The binary restore is a loop that need not end, so it
  is a \<open>partial_function\<close> and not returning is the value \<open>None\<close>.
\<close>

definition kBinaryDumpMagicNumber :: "32 word" where
  "kBinaryDumpMagicNumber = 0xdeadface"

definition kRestoreBatchSize :: nat where
  "kRestoreBatchSize = 10000"

section \<open>dump\<close>

text \<open>
  One entry.  The size is stored in a \<open>uint32_t\<close>, and only that many bytes of the value are
  written.
\<close>

definition dump_entry :: "bool \<Rightarrow> num_id \<Rightarrow> string \<Rightarrow> string" where
  "dump_entry binary_dump current_id v =
     (if binary_dump then
        let value_size = (of_nat (length v) :: 32 word) in
        id_bytes current_id @ u32_bytes value_size @ take (unat value_size) v
      else print_id current_id @ [tab] @ v @ [newline])"

fun dump_loop :: "bool \<Rightarrow> ldb_entry list \<Rightarrow> num_id \<Rightarrow> string \<Rightarrow> (error + unit) \<times> string" where
  "dump_loop binary_dump [] current_id out = (Inr (), out)"
| "dump_loop binary_dump ((status, key, val) # es) current_id out =
     (if status \<noteq> StOk then (Inl (Exc (IterationFailed (status_text status))), out)
      else if 8 < length key then (Inl (UB BufferOverflow), out)
      else
        let current_id = memcpy_id current_id key in
        dump_loop binary_dump es current_id (out @ dump_entry binary_dump current_id val))"

definition ds_dump ::
  "'db leveldb \<Rightarrow> num_id \<Rightarrow> 'db disk_storage \<Rightarrow> bool \<Rightarrow> (error + unit) \<times> string" where
  "ds_dump L junk ds binary_dump =
     (case db ds of
        None \<Rightarrow> (Inl (UB NullDereference), [])
      | Some d \<Rightarrow>
          dump_loop binary_dump (fst (ldb_Iterate L False d)) junk
            (if binary_dump then u32_bytes kBinaryDumpMagicNumber else []))"

section \<open>restore\<close>

text \<open>The batch: a pair is appended, and a full batch is written and cleared.\<close>

definition push_pair ::
  "'db leveldb \<Rightarrow> kv_pair \<Rightarrow> kv_pair list \<Rightarrow> 'db disk_storage \<Rightarrow>
     (error + kv_pair list) \<times> 'db disk_storage" where
  "push_pair L kv kv_pairs ds =
     (let kv_pairs = kv_pairs @ [kv] in
      if kRestoreBatchSize \<le> length kv_pairs then
        (case ds_write L ds kv_pairs of
           (Inl e, ds') \<Rightarrow> (Inl e, ds')
         | (Inr _, ds') \<Rightarrow> (Inr [], ds'))
      else (Inr kv_pairs, ds))"

text \<open>One line of a text dump; \<open>Inl\<close> is what leaves the loop.\<close>

definition parse_line :: "boost \<Rightarrow> string \<Rightarrow> error + kv_pair" where
  "parse_line B line =
     (case boost_split B [tab] False line of
        [] \<Rightarrow> Inl (UB IndexOutOfRange)
      | item0 # items \<Rightarrow>
          (case lexical_cast_i64 B item0 of
             Inl what \<Rightarrow> Inl (Exc (BadDumpLine what line))
           | Inr key \<Rightarrow>
               (case items of
                  [] \<Rightarrow> Inl (UB IndexOutOfRange)
                | item1 # _ \<Rightarrow> Inr (key, item1))))"

function restore_text_loop ::
  "boost \<Rightarrow> 'db leveldb \<Rightarrow> istream \<Rightarrow> kv_pair list \<Rightarrow> 'db disk_storage \<Rightarrow>
     (error + kv_pair list) \<times> 'db disk_storage" where
  "restore_text_loop B L stream kv_pairs ds =
     (case getline stream of
        (False, _, _) \<Rightarrow> (Inr kv_pairs, ds)
      | (True, line, stream') \<Rightarrow>
          (case parse_line B line of
             Inl e \<Rightarrow> (Inl e, ds)
           | Inr kv \<Rightarrow>
               (case push_pair L kv kv_pairs ds of
                  (Inl e, ds') \<Rightarrow> (Inl e, ds')
                | (Inr kv_pairs', ds') \<Rightarrow> restore_text_loop B L stream' kv_pairs' ds')))"
  by pat_completeness auto

termination
  by (relation "measure (\<lambda>(_, _, stream, _, _). size stream)")
     (auto dest: getline_shrinks [OF sym])

declare restore_text_loop.simps [simp del]

text \<open>
  The locals of the binary loop.  \<open>key\<close> is uninitialised at first.  \<open>buffer\<close> is the storage
  of the vector, as long as its capacity: the code only reserves, so the vector stays empty
  and is used through the address of its first byte; a reallocation gives fresh bytes, which
  \<open>heap\<close> supplies.
\<close>

record restore_locals =
  rl_key :: num_id
  rl_value_size :: "32 word"
  rl_buffer :: string
  rl_stream :: istream

definition reserve :: "(nat \<Rightarrow> char) \<Rightarrow> nat \<Rightarrow> string \<Rightarrow> string" where
  "reserve heap n buffer = (if length buffer < n then map heap [0..<n] else buffer)"

definition read_entry :: "(nat \<Rightarrow> char) \<Rightarrow> restore_locals \<Rightarrow> kv_pair \<times> restore_locals" where
  "read_entry heap l =
     (let (got_key, s1) = stream_read 8 (rl_stream l);
          key = memcpy_id (rl_key l) got_key;
          (got_size, s2) = stream_read 4 s1;
          value_size = bytes_u32 (overlay got_size (u32_bytes (rl_value_size l)));
          buffer = reserve heap (unat value_size) (rl_buffer l);
          (got_value, s3) = stream_read (unat value_size) s2;
          buffer = overlay got_value buffer
      in ((key, take (unat value_size) buffer),
          \<lparr>rl_key = key, rl_value_size = value_size, rl_buffer = buffer, rl_stream = s3\<rparr>))"

partial_function (option) restore_binary_loop ::
  "(nat \<Rightarrow> char) \<Rightarrow> 'db leveldb \<Rightarrow> restore_locals \<Rightarrow> kv_pair list \<Rightarrow> 'db disk_storage \<Rightarrow>
     ((error + kv_pair list) \<times> 'db disk_storage) option" where
  "restore_binary_loop heap L l kv_pairs ds =
     (if eofbit (rl_stream l) then Some (Inr kv_pairs, ds)
      else
        (case read_entry heap l of (kv, l') \<Rightarrow>
          (case push_pair L kv kv_pairs ds of
             (Inl e, ds') \<Rightarrow> Some (Inl e, ds')
           | (Inr kv_pairs', ds') \<Rightarrow> restore_binary_loop heap L l' kv_pairs' ds')))"

definition restore_flush ::
  "'db leveldb \<Rightarrow> (error + kv_pair list) \<times> 'db disk_storage \<Rightarrow> (error + unit) \<times> 'db disk_storage" where
  "restore_flush L r =
     (case r of
        (Inl e, ds) \<Rightarrow> (Inl e, ds)
      | (Inr kv_pairs, ds) \<Rightarrow> if kv_pairs \<noteq> [] then ds_write L ds kv_pairs else (Inr (), ds))"

definition ds_restore ::
  "boost \<Rightarrow> 'db leveldb \<Rightarrow> (nat \<Rightarrow> char) \<Rightarrow> num_id \<Rightarrow> 'db disk_storage \<Rightarrow> istream \<Rightarrow> bool \<Rightarrow>
     ((error + unit) \<times> 'db disk_storage) option" where
  "ds_restore B L heap junk ds stream binary_dump =
     (if db ds = None then Some (Inl (Exc DbNotInitialized), ds)
      else if \<not> binary_dump then Some (restore_flush L (restore_text_loop B L stream [] ds))
      else
        (case stream_read 4 stream of (got, stream') \<Rightarrow>
           let magic_number = bytes_u32 (overlay got (u32_bytes 0)) in
           if magic_number \<noteq> kBinaryDumpMagicNumber
           then Some (Inl (Exc (BadMagic magic_number kBinaryDumpMagicNumber)), ds)
           else map_option (restore_flush L)
                  (restore_binary_loop heap L
                     \<lparr>rl_key = junk, rl_value_size = 0, rl_buffer = [], rl_stream = stream'\<rparr> [] ds)))"

section \<open>What a restore writes\<close>

text \<open>The pairs of a dump, pushed one after the other.\<close>

fun push_all ::
  "'db leveldb \<Rightarrow> kv_pair list \<Rightarrow> kv_pair list \<Rightarrow> 'db disk_storage \<Rightarrow>
     (error + kv_pair list) \<times> 'db disk_storage" where
  "push_all L [] kv_pairs ds = (Inr kv_pairs, ds)"
| "push_all L (kv # kvs) kv_pairs ds =
     (case push_pair L kv kv_pairs ds of
        (Inl e, ds') \<Rightarrow> (Inl e, ds')
      | (Inr kv_pairs', ds') \<Rightarrow> push_all L kvs kv_pairs' ds')"

lemma ds_write_succeeds:
  assumes "leveldb_no_error L" and "db ds \<noteq> None"
  obtains ds' where "ds_write L ds kvs = (Inr (), ds')" and "db ds' \<noteq> None"
proof -
  obtain d where d: "db ds = Some d" using assms(2) by blast
  obtain d' where "ldb_Write L d (kv_batch kvs) = (StOk, d')"
    using assms(1) unfolding leveldb_no_error_def by (metis prod.collapse)
  with d have "ds_write L ds kvs = (Inr (), ds\<lparr>db := Some d'\<rparr>)" by (simp add: ds_write_def)
  then show thesis using that by simp
qed

lemma push_pair_step:
  assumes "leveldb_ok L" and "leveldb_no_error L" and "db ds \<noteq> None"
  obtains kvp' ds' where "push_pair L kv kvp ds = (Inr kvp', ds')" and "db ds' \<noteq> None"
    and "put_all (ds_view L ds') kvp' = put_all (ds_view L ds) (kvp @ [kv])"
proof (cases "kRestoreBatchSize \<le> length (kvp @ [kv])")
  case True
  obtain ds' where w: "ds_write L ds (kvp @ [kv]) = (Inr (), ds')" "db ds' \<noteq> None"
    by (rule ds_write_succeeds [OF assms(2,3)])
  show thesis
  proof (rule that)
    show "push_pair L kv kvp ds = (Inr [], ds')"
      using True w by (simp add: push_pair_def Let_def)
    show "db ds' \<noteq> None" by (rule w)
    show "put_all (ds_view L ds') [] = put_all (ds_view L ds) (kvp @ [kv])"
      using disk.write_tab [OF assms(1) w(1)] by simp
  qed
next
  case False
  then show thesis using that [of "kvp @ [kv]" ds] assms(3) by (simp add: push_pair_def Let_def)
qed

lemma push_all_flush:
  assumes "leveldb_ok L" and "leveldb_no_error L" and "db ds \<noteq> None"
  shows "\<exists>ds'. restore_flush L (push_all L kvs kvp ds) = (Inr (), ds') \<and>
           ds_view L ds' = put_all (ds_view L ds) (kvp @ kvs)"
  using assms(3)
proof (induction kvs arbitrary: kvp ds)
  case Nil
  show ?case
  proof (cases "kvp = []")
    case False
    obtain ds' where "ds_write L ds kvp = (Inr (), ds')"
      by (rule ds_write_succeeds [OF assms(2) Nil])
    with False disk.write_tab [OF assms(1) this] show ?thesis by (simp add: restore_flush_def)
  qed (simp add: restore_flush_def)
next
  case (Cons kv kvs)
  obtain kvp' ds' where p: "push_pair L kv kvp ds = (Inr kvp', ds')" "db ds' \<noteq> None"
    "put_all (ds_view L ds') kvp' = put_all (ds_view L ds) (kvp @ [kv])"
    by (rule push_pair_step [OF assms(1,2) Cons.prems])
  from Cons.IH [OF p(2), of kvp'] p(1,3) show ?case by (cases kv) (simp del: fun_upd_apply)
qed

section \<open>What a dump contains\<close>

definition dump_text :: "bool \<Rightarrow> kv_pair list \<Rightarrow> string" where
  "dump_text binary_dump kvs = concat (map (\<lambda>(i, v). dump_entry binary_dump i v) kvs)"

lemma dump_text_simps [simp]:
  "dump_text b [] = []" "dump_text b ((i, v) # kvs) = dump_entry b i v @ dump_text b kvs"
  by (simp_all add: dump_text_def)

lemma dump_loop_text:
  assumes "\<forall>(st, k, v) \<in> set es. st = StOk \<and> length k = 8"
  shows "dump_loop b es c out = (Inr (), out @ dump_text b (map (\<lambda>(st, k, v). (bytes_id k, v)) es))"
  using assms by (induction es arbitrary: c out) (auto simp: memcpy_id_full Let_def)

lemma ds_dump_text:
  assumes "leveldb_ok L" and "leveldb_no_error L" and "ds_wf L ds" and "db ds = Some d"
  shows "ds_dump L junk ds b =
           (Inr (), (if b then u32_bytes kBinaryDumpMagicNumber else []) @ dump_text b (iter_pairs L d))"
proof -
  have "st = StOk \<and> length k = 8" if e: "(st, k, v) \<in> set (fst (ldb_Iterate L False d))" for st k v
  proof -
    have "(k, v) \<in> set (iter_entries L False d)" using e by (force simp: iter_entries_def)
    moreover have "st = StOk" using assms(2) e unfolding leveldb_no_error_def by fastforce
    ultimately show ?thesis
      using iter_keys8 [OF assms(1)] assms(3,4) by (auto simp: ds_wf_def)
  qed
  then have "\<forall>(st, k, v) \<in> set (fst (ldb_Iterate L False d)). st = StOk \<and> length k = 8" by blast
  from dump_loop_text [OF this] show ?thesis using assms(4) by (simp add: ds_dump_def iter_pairs_def)
qed

text \<open>The pairs of a healthy well-formed table are its whole contents, each id once.\<close>

lemma table_pairs:
  assumes "leveldb_ok L" and "leveldb_no_error L" and "ds_wf L ds" and "db ds = Some d"
  shows "distinct (map fst (iter_pairs L d))" and "map_of (iter_pairs L d) = ds_view L ds"
proof -
  have keys: "\<forall>k \<in> dom (ldb_view L d). length k = 8" using assms(3,4) by (simp add: ds_wf_def)
  then show "distinct (map fst (iter_pairs L d))" by (rule iter_pairs_distinct [OF assms(1)])
  have "snd (ldb_Iterate L False d) = StOk" using assms(2) by (simp add: leveldb_no_error_def)
  from iter_pairs_map_of [OF assms(1) keys this] show "map_of (iter_pairs L d) = ds_view L ds"
    using assms(4) by (simp add: fun_eq_iff)
qed

lemma table_pairs_ran:
  "distinct (map fst kvs) \<Longrightarrow> map_of kvs = t \<Longrightarrow> (i, v) \<in> set kvs \<Longrightarrow> v \<in> ran t"
  by (metis map_of_is_SomeI ranI)

section \<open>Reading a binary dump\<close>

lemma reserve_length: "n \<le> length (reserve heap n buffer)"
  by (simp add: reserve_def)

lemma take_overlay: "take (length v) (overlay v b) = v"
  by (simp add: overlay_def)

text \<open>An entry that is all there is read as it was written.\<close>

lemma read_entry_full:
  assumes "good (rl_stream l)" and "rest (rl_stream l) = dump_entry True i v @ r" and "length v < 2 ^ 32"
  obtains l' where "read_entry heap l = ((i, v), l')"
    and "rl_stream l' = (rl_stream l)\<lparr>rest := r\<rparr>"
    and "rl_key l' = i" and "rl_value_size l' = of_nat (length v)"
    and "take (length v) (rl_buffer l') = v" and "length v \<le> length (rl_buffer l')"
proof -
  define n :: "32 word" where "n = of_nat (length v)"
  have n: "unat n = length v" using assms(3) by (simp add: n_def unsigned_of_nat take_bit_nat_eq_self)
  define s where "s = rl_stream l"
  have "rest s = id_bytes i @ u32_bytes n @ v @ r"
    using assms(2) n by (simp add: s_def dump_entry_def Let_def n_def)
  then have r1: "stream_read 8 s = (id_bytes i, s\<lparr>rest := u32_bytes n @ v @ r\<rparr>)"
    using assms(1) stream_read_full [of s "id_bytes i" 8] by (simp add: s_def)
  have r2: "stream_read 4 (s\<lparr>rest := u32_bytes n @ v @ r\<rparr>) = (u32_bytes n, s\<lparr>rest := v @ r\<rparr>)"
    using assms(1) stream_read_full [of "s\<lparr>rest := u32_bytes n @ v @ r\<rparr>" "u32_bytes n" 4] by (simp add: s_def)
  have r3: "stream_read (unat n) (s\<lparr>rest := v @ r\<rparr>) = (v, s\<lparr>rest := r\<rparr>)"
    using assms(1) stream_read_full [of "s\<lparr>rest := v @ r\<rparr>" v "unat n"] n by (simp add: s_def)
  show thesis
    by (rule that [of "\<lparr>rl_key = i, rl_value_size = n, rl_buffer = overlay v (reserve heap (length v) (rl_buffer l)),
           rl_stream = s\<lparr>rest := r\<rparr>\<rparr>"])
       (use r1 r2 r3 n in \<open>simp_all add: read_entry_def s_def [symmetric] memcpy_id_full n_def [symmetric]
          take_overlay Let_def\<close>)
qed

lemma read_entry_end:
  assumes "good (rl_stream l)" and "\<not> broken (rl_stream l)" and "rest (rl_stream l) = []"
    and "unat (rl_value_size l) \<le> length (rl_buffer l)"
  obtains l' where
    "read_entry heap l = ((rl_key l, take (unat (rl_value_size l)) (rl_buffer l)), l')"
    and "eofbit (rl_stream l')"
proof -
  define s where "s = rl_stream l"
  have r1: "stream_read 8 s = ([], s\<lparr>eofbit := True, failbit := True\<rparr>)"
    using assms(1-3) by (simp add: s_def stream_read_def)
  show thesis
    by (rule that [of "snd (read_entry heap l)"])
       (use r1 assms(4) in \<open>simp_all add: read_entry_def s_def [symmetric] memcpy_id_def
          reserve_def Let_def good_def\<close>)
qed

text \<open>
  The loop on the entries of a dump: all pairs are pushed, and then, because the end of the
  file shows only when a read fails, the last one a second time.
\<close>

lemma restore_binary_text:
  assumes "good (rl_stream l)" and "\<not> broken (rl_stream l)"
    and "rest (rl_stream l) = dump_text True kvs"
    and "\<forall>(i, v) \<in> set kvs. length v < 2 ^ 32"
    and "unat (rl_value_size l) \<le> length (rl_buffer l)"
  shows "restore_binary_loop heap L l kvp ds =
           Some (push_all L (kvs @ [if kvs = [] then
                                      (rl_key l, take (unat (rl_value_size l)) (rl_buffer l))
                                    else last kvs]) kvp ds)"
  using assms
proof (induction kvs arbitrary: l kvp ds)
  case Nil
  obtain l' where
    "read_entry heap l = ((rl_key l, take (unat (rl_value_size l)) (rl_buffer l)), l')"
    "eofbit (rl_stream l')"
    by (rule read_entry_end [of l heap]) (use Nil.prems in simp_all)
  then show ?case
    using Nil.prems(1)
    by (subst restore_binary_loop.simps)
       (auto simp: good_def restore_binary_loop.simps [of heap L l'] split: prod.splits sum.splits)
next
  case (Cons kv kvs)
  obtain i v where kv: "kv = (i, v)" by fastforce
  obtain l' where l': "read_entry heap l = ((i, v), l')"
    "rl_stream l' = (rl_stream l)\<lparr>rest := dump_text True kvs\<rparr>"
    "rl_key l' = i" "rl_value_size l' = of_nat (length v)"
    "take (length v) (rl_buffer l') = v" "length v \<le> length (rl_buffer l')"
    by (rule read_entry_full [of l i v "dump_text True kvs" heap]) (use Cons.prems kv in simp_all)
  have n: "unat (of_nat (length v) :: 32 word) = length v"
    using Cons.prems(4) kv by (simp add: unsigned_of_nat take_bit_nat_eq_self)
  have IH: "restore_binary_loop heap L l' kvp' ds' =
      Some (push_all L (kvs @ [if kvs = [] then (i, v) else last kvs]) kvp' ds')" for kvp' ds'
    using Cons.IH [of l' kvp' ds'] Cons.prems(1,2,4) kv l' n by simp
  have "\<not> eofbit (rl_stream l)" using Cons.prems(1) by (simp add: good_def)
  then have "restore_binary_loop heap L l kvp ds =
      Some (push_all L (kv # kvs @ [if kvs = [] then (i, v) else last kvs]) kvp ds)"
    using l'(1) IH kv
    by (subst restore_binary_loop.simps) (auto split: prod.splits sum.splits)
  then show ?case using kv by simp
qed

lemma magic_first:
  assumes "good s" and "rest s = u32_bytes kBinaryDumpMagicNumber @ r"
  shows "stream_read 4 s = (u32_bytes kBinaryDumpMagicNumber, s\<lparr>rest := r\<rparr>)"
  by (rule stream_read_full) (use assms in simp_all)

lemma restore_binary_dump:
  assumes "db ds \<noteq> None" and "\<forall>(i, v) \<in> set kvs. length v < 2 ^ 32"
  shows "ds_restore B L heap junk ds
           (open_stream (u32_bytes kBinaryDumpMagicNumber @ dump_text True kvs)) True =
         Some (restore_flush L (push_all L (kvs @ [if kvs = [] then (junk, []) else last kvs]) [] ds))"
  using assms
  by (auto simp: ds_restore_def magic_first restore_binary_text)

section \<open>Reading a text dump\<close>

definition before_tab :: "string \<Rightarrow> string" where
  "before_tab = takeWhile (\<lambda>c. c \<noteq> tab)"

lemma before_tab_none: "tab \<notin> set v \<Longrightarrow> before_tab v = v"
  by (induction v) (auto simp: before_tab_def)

lemma parse_dump_line:
  assumes "boost_ok B"
  shows "parse_line B (print_id i @ tab # v) = Inr (i, before_tab v)"
proof -
  have "boost_split B [tab] False (print_id i @ tab # v) = print_id i # boost_split B [tab] False v"
    by (rule boost_split_more [OF assms]) (auto simp: tab_def)
  moreover have "\<exists>ws. boost_split B [tab] False v = before_tab v # ws"
  proof (cases "tab \<in> set v")
    case False
    then have "boost_split B [tab] False v = [v]" by (intro boost_split_one [OF assms]) auto
    with False show ?thesis by (simp add: before_tab_none)
  next
    case True
    then obtain a b where v: "v = a @ tab # b" "tab \<notin> set a" by (metis split_list_first)
    have "boost_split B [tab] False v = a # boost_split B [tab] False b"
      unfolding v(1) by (rule boost_split_more [OF assms]) (use v(2) in auto)
    moreover have "before_tab v = a"
      using v(2) by (simp add: v(1) before_tab_def takeWhile_tail) (metis before_tab_def before_tab_none)
    ultimately show ?thesis by simp
  qed
  ultimately show ?thesis by (auto simp: parse_line_def lexical_cast_print [OF assms])
qed

lemma restore_text_prefix:
  assumes "boost_ok B" and "good s" and "rest s = dump_text False kvs @ r"
    and "\<forall>(i, v) \<in> set kvs. newline \<notin> set v"
  shows "restore_text_loop B L s kvp ds =
           (case push_all L (map (\<lambda>(i, v). (i, before_tab v)) kvs) kvp ds of
              (Inl e, ds') \<Rightarrow> (Inl e, ds')
            | (Inr kvp', ds') \<Rightarrow> restore_text_loop B L (s\<lparr>rest := r\<rparr>) kvp' ds')"
  using assms(2-)
proof (induction kvs arbitrary: s kvp ds)
  case Nil
  then have "s\<lparr>rest := r\<rparr> = s" by simp
  then show ?case by simp
next
  case (Cons kv kvs)
  obtain i v where kv: "kv = (i, v)" by fastforce
  have "rest s = (print_id i @ tab # v) @ newline # dump_text False kvs @ r"
    using Cons.prems(2) kv by (simp add: dump_entry_def)
  moreover have "newline \<notin> set (print_id i @ tab # v)"
    using Cons.prems(3) kv by (auto simp: newline_def tab_def)
  ultimately have "getline s = (True, print_id i @ tab # v, s\<lparr>rest := dump_text False kvs @ r\<rparr>)"
    using Cons.prems(1) by (intro getline_line)
  then show ?case
    using Cons.IH [of "s\<lparr>rest := dump_text False kvs @ r\<rparr>"] Cons.prems(1,3) kv parse_dump_line [OF assms(1)]
    by (subst restore_text_loop.simps) (auto split: sum.splits prod.splits)
qed

lemma restore_text_end:
  assumes "good s" and "\<not> broken s" and "rest s = []"
  shows "restore_text_loop B L s kvp ds = (Inr kvp, ds)"
  using getline_end [OF assms] by (subst restore_text_loop.simps) (auto split: prod.splits)

lemma restore_text_dump:
  assumes "boost_ok B" and "db ds \<noteq> None" and "\<forall>(i, v) \<in> set kvs. newline \<notin> set v"
  shows "ds_restore B L heap junk ds (open_stream (dump_text False kvs)) False =
           Some (restore_flush L (push_all L (map (\<lambda>(i, v). (i, before_tab v)) kvs) [] ds))"
proof -
  let ?s = "open_stream (dump_text False kvs)"
  have "restore_text_loop B L ?s [] ds = push_all L (map (\<lambda>(i, v). (i, before_tab v)) kvs) [] ds"
    by (subst restore_text_prefix [OF assms(1), of ?s kvs "[]"])
       (use assms(3) in \<open>simp_all add: restore_text_end split: prod.split sum.split\<close>)
  then show ?thesis using assms(2) by (auto simp: ds_restore_def)
qed

section \<open>Returning or not\<close>

lemma read_entry_stream:
  obtains n where "rl_stream (snd (read_entry heap l)) =
    snd (stream_read n (snd (stream_read 4 (snd (stream_read 8 (rl_stream l))))))"
proof (rule that)
  show "rl_stream (snd (read_entry heap l)) =
      snd (stream_read (unat (rl_value_size (snd (read_entry heap l))))
        (snd (stream_read 4 (snd (stream_read 8 (rl_stream l))))))"
    by (simp add: read_entry_def Let_def split_def)
qed

lemma read_entry_sane:
  assumes "sane (rl_stream l)"
  shows "sane (rl_stream (snd (read_entry heap l)))"
    and "\<not> eofbit (rl_stream (snd (read_entry heap l))) \<Longrightarrow>
         size (rl_stream (snd (read_entry heap l))) < size (rl_stream l)"
proof -
  let ?s1 = "snd (stream_read 8 (rl_stream l))"
  let ?s2 = "snd (stream_read 4 ?s1)"
  obtain n where n: "rl_stream (snd (read_entry heap l)) = snd (stream_read n ?s2)"
    by (rule read_entry_stream)
  have sane: "sane ?s1" "sane ?s2" using assms by (simp_all add: stream_read_sane)
  then show "sane (rl_stream (snd (read_entry heap l)))" using n by (simp add: stream_read_sane)
  assume "\<not> eofbit (rl_stream (snd (read_entry heap l)))"
  then have "\<not> eofbit ?s2" "\<not> eofbit ?s1" using n stream_read_eof_mono by metis+
  with sane assms have "size ?s2 < size (rl_stream l)"
    using stream_read_shrinks [of "rl_stream l" 8] stream_read_rest [of 4 ?s1] by linarith
  then show "size (rl_stream (snd (read_entry heap l))) < size (rl_stream l)"
    unfolding n using stream_read_rest [of n ?s2] by linarith
qed

lemma restore_binary_returns:
  assumes "sane (rl_stream l)"
  shows "restore_binary_loop heap L l kvp ds \<noteq> None"
  using assms
proof (induction "size (rl_stream l)" arbitrary: l kvp ds rule: less_induct)
  case less
  let ?l' = "snd (read_entry heap l)"
  have "restore_binary_loop heap L ?l' kvp' ds' \<noteq> None" for kvp' ds'
  proof (cases "eofbit (rl_stream ?l')")
    case True
    then show ?thesis by (simp add: restore_binary_loop.simps)
  next
    case False
    with read_entry_sane [OF less.prems, of heap] show ?thesis by (intro less.hyps) simp_all
  qed
  then show ?case
    by (subst restore_binary_loop.simps) (auto split: prod.splits sum.splits)
qed

lemma read_entry_broken:
  assumes "broken (rl_stream l)"
  shows "broken (rl_stream (snd (read_entry heap l)))"
    and "eofbit (rl_stream (snd (read_entry heap l))) = eofbit (rl_stream l)"
proof -
  obtain n where "rl_stream (snd (read_entry heap l)) =
      snd (stream_read n (snd (stream_read 4 (snd (stream_read 8 (rl_stream l))))))"
    by (rule read_entry_stream)
  then show "broken (rl_stream (snd (read_entry heap l)))"
    and "eofbit (rl_stream (snd (read_entry heap l))) = eofbit (rl_stream l)"
    using assms by (simp_all add: stream_read_broken_eof)
qed

text \<open>On a stream with a read error the loop ends only when a write throws.\<close>

lemma restore_binary_broken:
  assumes "restore_binary_loop heap L l kvp ds = Some r"
    and "broken (rl_stream l)" and "\<not> eofbit (rl_stream l)"
  shows "\<exists>e. fst r = Inl e"
  using assms
proof (induction rule: restore_binary_loop.raw_induct [rotated, consumes 1, case_names step])
  case (step f heap L l kvp ds r)
  obtain kv l' where l': "read_entry heap l = (kv, l')" by fastforce
  obtain x ds' where p: "push_pair L kv kvp ds = (x, ds')" by fastforce
  show ?case
  proof (cases x)
    case (Inl e)
    with step.hyps step.prems l' p show ?thesis by auto
  next
    case (Inr kvp')
    with step.hyps step.prems l' p have "f heap L l' kvp' ds' = Some r" by simp
    then show ?thesis
      by (rule step.IH) (use read_entry_broken [of l heap] step.prems l' in simp_all)
  qed
qed

lemma push_pair_no_error:
  assumes "leveldb_no_error L" and "db ds \<noteq> None"
  shows "\<exists>kvp' ds'. push_pair L kv kvp ds = (Inr kvp', ds') \<and> db ds' \<noteq> None"
proof (cases "kRestoreBatchSize \<le> length (kvp @ [kv])")
  case True
  obtain ds' where "ds_write L ds (kvp @ [kv]) = (Inr (), ds')" "db ds' \<noteq> None"
    by (rule ds_write_succeeds [OF assms])
  with True show ?thesis by (simp add: push_pair_def Let_def)
qed (use assms in \<open>simp add: push_pair_def Let_def\<close>)

lemma restore_binary_no_error:
  assumes "restore_binary_loop heap L l kvp ds = Some r"
    and "leveldb_no_error L" and "db ds \<noteq> None"
  shows "\<exists>kvp'. fst r = Inr kvp'"
  using assms
proof (induction rule: restore_binary_loop.raw_induct [rotated, consumes 1, case_names step])
  case (step f heap L l kvp ds r)
  obtain kv l' where l': "read_entry heap l = (kv, l')" by fastforce
  obtain kvp' ds' where p: "push_pair L kv kvp ds = (Inr kvp', ds')" "db ds' \<noteq> None"
    using push_pair_no_error [OF step.prems] by blast
  show ?case
  proof (cases "eofbit (rl_stream l)")
    case True
    with step.hyps show ?thesis by auto
  next
    case False
    with step.hyps l' p have "f heap L l' kvp' ds' = Some r" by simp
    then show ?thesis by (rule step.IH) (use step.prems(1) p(2) in simp_all)
  qed
qed

lemma restore_binary_never:
  assumes "leveldb_no_error L" and "db ds \<noteq> None"
    and "broken (rl_stream l)" and "\<not> eofbit (rl_stream l)"
  shows "restore_binary_loop heap L l kvp ds = None"
proof (cases "restore_binary_loop heap L l kvp ds")
  case (Some r)
  from restore_binary_broken [OF this assms(3,4)] restore_binary_no_error [OF this assms(1,2)]
  show ?thesis by auto
qed

section \<open>Bad magic numbers\<close>

lemma le_bytes_nth: "j < k \<Longrightarrow> of_char (le_bytes k n ! j) = n div 256 ^ j mod 256"
proof (induction k arbitrary: n j)
  case (Suc k)
  then show ?case by (cases j) (simp_all add: div_mult2_eq)
qed simp

lemma u32_bytes_bytes_u32:
  assumes "length cs = 4"
  shows "u32_bytes (bytes_u32 cs) = cs"
proof -
  have "le_nat cs < 2 ^ 32" using le_nat_less [of cs] assms by simp
  then have "unat (of_nat (le_nat cs) :: 32 word) = le_nat cs"
    by (simp add: unsigned_of_nat take_bit_nat_eq_self)
  then show ?thesis
    using le_bytes_le_nat [of cs] assms by (simp add: u32_bytes_def bytes_u32_def)
qed

text \<open>Only the four bytes of the magic number are accepted, at the beginning of the file.\<close>

lemma magic_bytes:
  assumes "bytes_u32 (overlay (take 4 s) (u32_bytes 0)) = kBinaryDumpMagicNumber"
  shows "take 4 s = u32_bytes kBinaryDumpMagicNumber"
proof -
  let ?o = "overlay (take 4 s) (u32_bytes 0)"
  have o: "?o = u32_bytes kBinaryDumpMagicNumber"
    using u32_bytes_bytes_u32 [of ?o] assms by simp
  have "4 \<le> length s"
  proof (rule ccontr)
    assume short: "\<not> 4 \<le> length s"
    then have "?o ! 3 = u32_bytes 0 ! 3" by (simp add: overlay_def nth_append)
    then have "of_char (u32_bytes kBinaryDumpMagicNumber ! 3) = (of_char (u32_bytes 0 ! 3) :: nat)"
      using o by simp
    then show False by (simp add: u32_bytes_def le_bytes_nth kBinaryDumpMagicNumber_def)
  qed
  then have "?o = take 4 s" by simp
  with o show ?thesis by simp
qed

lemma stream_read_open: "fst (stream_read n (open_stream s)) = take n s"
  by (simp add: stream_read_def)

section \<open>A concrete table, for the witnesses\<close>

definition demo_table :: "kv_pair list \<Rightarrow> (string \<times> string) list disk_storage" where
  "demo_table kvs = ds_new\<lparr>db := Some (map (\<lambda>(i, v). (id_bytes i, v)) kvs)\<rparr>"

lemma demo_table_view [simp]: "ds_view alist_db (demo_table kvs) = map_of kvs"
proof -
  have "map_of (map (\<lambda>(i, v). (id_bytes i, v)) kvs) (id_bytes i) = map_of kvs i" for i
    by (induction kvs) auto
  then show ?thesis by (simp add: demo_table_def alist_db_def fun_eq_iff ds_view_def)
qed

lemma demo_table_wf [simp]: "ds_wf alist_db (demo_table kvs)"
  by (auto simp: ds_wf_def demo_table_def alist_db_def dest!: map_of_SomeD)

lemma demo_table_open [simp]: "db (demo_table kvs) \<noteq> None"
  by (simp add: demo_table_def)

section \<open>From one table to another\<close>

lemma binary_transfer:
  assumes "leveldb_ok L" and "leveldb_no_error L" and "ds_wf L ds" and "db target \<noteq> None"
    and "ds_view L ds \<noteq> Map.empty" and "\<forall>v \<in> ran (ds_view L ds). length v < 2 ^ 32"
  shows "\<exists>out target'. ds_dump L junk ds True = (Inr (), out) \<and>
           ds_restore B L heap junk' target (open_stream out) True = Some (Inr (), target') \<and>
           ds_view L target' = ds_view L target ++ ds_view L ds"
proof -
  obtain d where d: "db ds = Some d" using assms(3) by (auto simp: ds_wf_def)
  let ?kvs = "iter_pairs L d"
  note pairs = table_pairs [OF assms(1-3) d]
  have ne: "?kvs \<noteq> []" using pairs(2) assms(5) by auto
  have small: "\<forall>(i, v) \<in> set ?kvs. length v < 2 ^ 32"
    using table_pairs_ran [OF pairs] assms(6) by blast
  have again: "put_all m (?kvs @ [last ?kvs]) = m ++ ds_view L ds" for m
    using put_all_dup [of "fst (last ?kvs)" "snd (last ?kvs)" ?kvs m] pairs ne
    by (simp add: put_all_map_of del: put_all_append)
  from push_all_flush [OF assms(1,2,4), of "?kvs @ [last ?kvs]" "[]"]
  obtain target' where "restore_flush L (push_all L (?kvs @ [last ?kvs]) [] target) = (Inr (), target')"
    "ds_view L target' = ds_view L target ++ ds_view L ds"
    by (auto simp: again simp del: put_all_append)
  then show ?thesis
    using ds_dump_text [OF assms(1-3) d, of junk True] restore_binary_dump [OF assms(4) small] ne
    by simp
qed

section \<open>Properties\<close>

text \<open>
  C26. A binary dump restores: for a healthy table that is not empty and whose values fit the
  32-bit size field, \<open>dump\<close> succeeds, and restoring its output returns normally, with every
  entry of the dumped table in the target and every other entry of the target unchanged.
  (The restore loop pushes the last entry twice, since \<open>eof\<close> is noticed too late; that is
  harmless here.)
\<close>

theorem binary_dump_restore:
  assumes "leveldb_ok L" and "leveldb_no_error L" and "ds_wf L ds" and "db target \<noteq> None"
    and "ds_view L ds \<noteq> Map.empty" and "\<forall>v \<in> ran (ds_view L ds). length v < 2 ^ 32"
  shows "\<exists>out target'. ds_dump L junk ds True = (Inr (), out) \<and>
           ds_restore B L heap junk' target (open_stream out) True = Some (Inr (), target') \<and>
           ds_view L target' = ds_view L target ++ ds_view L ds"
  by (rule binary_transfer [OF assms])

theorem binary_dump_restore_witness:
  "\<exists>out target'. ds_dump alist_db 0 (demo_table [(1, ''a''), (2, [])]) True = (Inr (), out) \<and>
     ds_restore ref_boost alist_db (\<lambda>i. CHR ''?'') 0 (demo_table [(2, ''old''), (3, ''c'')])
       (open_stream out) True = Some (Inr (), target') \<and>
     ds_view alist_db target' = [1 \<mapsto> ''a'', 2 \<mapsto> [], 3 \<mapsto> ''c'']"
proof -
  have "\<forall>v \<in> ran (ds_view alist_db (demo_table [(1, ''a''), (2, [])])). length v < 2 ^ 32"
    by (auto simp: ran_def split: if_splits)
  from binary_dump_restore [where target = "demo_table [(2, ''old''), (3, ''c'')]" and junk = 0
      and B = ref_boost and heap = "\<lambda>i. CHR ''?''" and junk' = 0,
      OF alist_db_ok alist_db_no_error demo_table_wf demo_table_open _ this]
  moreover have "map_of [(2 :: num_id, ''old''), (3, ''c'')] ++ map_of [(1, ''a''), (2, [])] =
      [1 \<mapsto> ''a'', 2 \<mapsto> [], 3 \<mapsto> ''c'']"
    by (auto simp: fun_eq_iff map_add_def)
  moreover have "map_of [(1 :: num_id, ''a''), (2, [])] \<noteq> Map.empty" by (simp del: fun_upd_apply)
  ultimately show ?thesis by (simp del: map_of.simps)
qed


text \<open>
  C31. An empty table does not survive a binary dump: its dump is the magic number alone, and
  restoring that writes an entry that was never there, the empty string under the id that the
  uninitialised variable \<open>key\<close> happens to hold, over whatever the target has at this id.
\<close>

theorem empty_binary_dump_restore:
  assumes "leveldb_ok L" and "leveldb_no_error L" and "ds_wf L ds" and "db target \<noteq> None"
    and "ds_view L ds = Map.empty"
  shows "\<exists>out target'. ds_dump L junk ds True = (Inr (), out) \<and>
           ds_restore B L heap junk' target (open_stream out) True = Some (Inr (), target') \<and>
           ds_view L target' = (ds_view L target)(junk' \<mapsto> [])"
proof -
  obtain d where d: "db ds = Some d" using assms(3) by (auto simp: ds_wf_def)
  have empty: "iter_pairs L d = []" using table_pairs(2) [OF assms(1-3) d] assms(5) by simp
  from push_all_flush [OF assms(1,2,4), of "[(junk', [])]" "[]"]
  obtain target' where "restore_flush L (push_all L [(junk', [])] [] target) = (Inr (), target')"
    "ds_view L target' = (ds_view L target)(junk' \<mapsto> [])"
    by auto
  then show ?thesis
    using ds_dump_text [OF assms(1-3) d, of junk True] empty
      restore_binary_dump [OF assms(4), of "[]" B L heap junk']
    by simp
qed

theorem empty_binary_dump_restore_witness:
  "\<exists>out target'. ds_dump alist_db 0 (demo_table []) True = (Inr (), out) \<and>
     ds_restore ref_boost alist_db (\<lambda>i. CHR ''?'') 7 (demo_table [(7, ''seven'')])
       (open_stream out) True = Some (Inr (), target') \<and>
     ds_view alist_db target' = [7 \<mapsto> []]"
  using empty_binary_dump_restore [where ds = "demo_table []" and target = "demo_table [(7, ''seven'')]"
      and junk = 0 and B = ref_boost and heap = "\<lambda>i. CHR ''?''" and junk' = 7,
      OF alist_db_ok alist_db_no_error demo_table_wf demo_table_open]
  by simp


text \<open>
  C27. A text dump restores up to tabs: for a healthy table whose values have no line break,
  \<open>dump\<close> succeeds, and restoring its output returns normally; every dumped id then has the
  part of its value before the first tab, and every other entry of the target is unchanged.
  So the restored table equals the dumped one exactly when no value has a tab; a value with a
  tab is cut without an error.
\<close>

theorem text_dump_restore:
  assumes "leveldb_ok L" and "leveldb_no_error L" and "boost_ok B" and "ds_wf L ds"
    and "db target \<noteq> None" and "\<forall>v \<in> ran (ds_view L ds). newline \<notin> set v"
  shows "\<exists>out target'. ds_dump L junk ds False = (Inr (), out) \<and>
           ds_restore B L heap junk' target (open_stream out) False = Some (Inr (), target') \<and>
           ds_view L target' = ds_view L target ++ (map_option before_tab \<circ> ds_view L ds)"
proof -
  obtain d where d: "db ds = Some d" using assms(4) by (auto simp: ds_wf_def)
  let ?kvs = "iter_pairs L d"
  let ?cut = "map (\<lambda>(i, v). (i, before_tab v)) ?kvs"
  note pairs = table_pairs [OF assms(1,2,4) d]
  have lines: "\<forall>(i, v) \<in> set ?kvs. newline \<notin> set v"
    using table_pairs_ran [OF pairs] assms(6) by blast
  have "distinct (map fst ?cut)" using pairs(1) by (simp add: split_def comp_def)
  moreover have "map_of ?cut = map_option before_tab \<circ> map_of ?kvs" by (rule map_of_map)
  ultimately have cut: "put_all m ?cut = m ++ (map_option before_tab \<circ> ds_view L ds)" for m
    using pairs(2) by (simp add: put_all_map_of)
  from push_all_flush [OF assms(1,2,5), of ?cut "[]"]
  obtain target' where "restore_flush L (push_all L ?cut [] target) = (Inr (), target')"
    "ds_view L target' = ds_view L target ++ (map_option before_tab \<circ> ds_view L ds)"
    by (auto simp: cut)
  then show ?thesis
    using ds_dump_text [OF assms(1,2,4) d, of junk False] restore_text_dump [OF assms(3,5) lines]
    by simp
qed

theorem text_dump_restore_witness:
  "\<exists>out target'. ds_dump alist_db 0 (demo_table [(1, ''a'' @ tab # ''b''), (2, ''c'')]) False = (Inr (), out) \<and>
     ds_restore ref_boost alist_db (\<lambda>i. CHR ''?'') 0 (demo_table [])
       (open_stream out) False = Some (Inr (), target') \<and>
     ds_view alist_db target' 1 = Some ''a'' \<and> ds_view alist_db target' 2 = Some ''c''"
proof -
  have "\<forall>v \<in> ran (ds_view alist_db (demo_table [(1, ''a'' @ tab # ''b''), (2, ''c'')])). newline \<notin> set v"
    by (auto simp: ran_def tab_def newline_def split: if_splits)
  from text_dump_restore [where target = "demo_table []" and junk = 0
      and heap = "\<lambda>i. CHR ''?''" and junk' = 0,
      OF alist_db_ok alist_db_no_error ref_boost_ok demo_table_wf demo_table_open this]
  show ?thesis by (auto simp: before_tab_def tab_def)
qed


text \<open>
  A value with a line break makes a text dump unusable: when exactly one value of the
  table has one, and what follows it is no number for \<open>lexical_cast\<close>, \<open>dump\<close> succeeds and
  restoring its output throws, blaming the second half of the value.
\<close>

theorem text_dump_newline:
  assumes "leveldb_ok L" and "leveldb_no_error L" and "boost_ok B" and "ds_wf L ds"
    and "db target \<noteq> None" and "ds_view L ds i = Some (a @ newline # b)"
    and "newline \<notin> set a" and "newline \<notin> set b" and "tab \<notin> set b"
    and "lexical_cast_i64 B b = Inl what"
    and "\<forall>j v. ds_view L ds j = Some v \<longrightarrow> j \<noteq> i \<longrightarrow> newline \<notin> set v"
  shows "\<exists>out target'. ds_dump L junk ds False = (Inr (), out) \<and>
           ds_restore B L heap junk' target (open_stream out) False =
             Some (Inl (Exc (BadDumpLine what b)), target')"
proof -
  obtain d where d: "db ds = Some d" using assms(4) by (auto simp: ds_wf_def)
  let ?kvs = "iter_pairs L d"
  note pairs = table_pairs [OF assms(1,2,4) d]
  have "(i, a @ newline # b) \<in> set ?kvs" using pairs(2) assms(6) map_of_SomeD by metis
  then obtain xs ys where kvs: "?kvs = xs @ (i, a @ newline # b) # ys" by (metis split_list)
  have "newline \<notin> set v" if "(j, v) \<in> set xs" for j v
  proof -
    have "(j, v) \<in> set ?kvs" using that kvs by simp
    then have "ds_view L ds j = Some v" using pairs by (metis map_of_is_SomeI)
    moreover have "j \<noteq> i" using that kvs pairs(1) by (force simp: image_iff)
    ultimately show ?thesis using assms(11) by blast
  qed
  then have lines: "\<forall>(j, v) \<in> set (xs @ [(i, a)]). newline \<notin> set v" using assms(7) by auto
  let ?r = "b @ newline # dump_text False ys"
  let ?out = "dump_text False ?kvs"
  have out: "?out = dump_text False (xs @ [(i, a)]) @ ?r"
    by (simp add: kvs dump_text_def dump_entry_def)
  have parse: "parse_line B b = Inl (Exc (BadDumpLine what b))"
  proof -
    have "boost_split B [tab] False b = [b]" by (rule boost_split_one [OF assms(3)]) (use assms(9) in auto)
    then show ?thesis using assms(10) by (simp add: parse_line_def)
  qed
  have line: "restore_text_loop B L ((open_stream ?out)\<lparr>rest := ?r\<rparr>) kvp ds' =
      (Inl (Exc (BadDumpLine what b)), ds')" for kvp ds'
    using getline_line [of "(open_stream ?out)\<lparr>rest := ?r\<rparr>" b "dump_text False ys"] assms(8) parse
    by (subst restore_text_loop.simps) simp
  obtain x ds' where x: "push_all L (map (\<lambda>(j, v). (j, before_tab v)) (xs @ [(i, a)])) [] target = (x, ds')"
    by fastforce
  moreover obtain kvp where "x = Inr kvp"
    using push_all_flush [OF assms(1,2,5), of "map (\<lambda>(j, v). (j, before_tab v)) (xs @ [(i, a)])" "[]"] x
    by (cases x) (auto simp: restore_flush_def)
  ultimately have "restore_text_loop B L (open_stream ?out) [] target = (Inl (Exc (BadDumpLine what b)), ds')"
    by (subst restore_text_prefix [OF assms(3) _ _ lines, where r = ?r])
       (simp_all add: out [symmetric] line del: map_append)
  then have "ds_restore B L heap junk' target (open_stream ?out) False =
      Some (Inl (Exc (BadDumpLine what b)), ds')"
    using assms(5) by (auto simp: ds_restore_def restore_flush_def)
  then show ?thesis using ds_dump_text [OF assms(1,2,4) d, of junk False] by simp
qed

theorem text_dump_newline_witness:
  "\<exists>out target'. ds_dump alist_db 0 (demo_table [(1, ''two'' @ newline # ''lines'')]) False = (Inr (), out) \<and>
     ds_restore ref_boost alist_db (\<lambda>i. CHR ''?'') 0 (demo_table []) (open_stream out) False =
       Some (Inl (Exc (BadDumpLine ''bad lexical cast'' ''lines'')), target')"
proof -
  have "lexical_cast_i64 ref_boost ''lines'' = Inl ''bad lexical cast''"
    by (simp add: ref_boost_def parse_range_def parse_int_def digit_val_def upt_rec)
  from text_dump_newline [where ds = "demo_table [(1, ''two'' @ newline # ''lines'')]" and i = 1
      and a = "''two''" and target = "demo_table []" and junk = 0 and heap = "\<lambda>i. CHR ''?''" and junk' = 0,
      OF alist_db_ok alist_db_no_error ref_boost_ok demo_table_wf demo_table_open _ _ _ _ this]
  show ?thesis by (simp add: newline_def tab_def)
qed


text \<open>
  The binary restore checks the magic number: a file that does not begin with its four
  bytes (a shorter file too) is refused with the exception that names both numbers, and
  nothing is written.
\<close>

theorem restore_bad_magic:
  assumes "db ds \<noteq> None" and "take 4 s \<noteq> u32_bytes kBinaryDumpMagicNumber"
  shows "\<exists>got. ds_restore B L heap junk ds (open_stream s) True =
           Some (Inl (Exc (BadMagic got kBinaryDumpMagicNumber)), ds) \<and> got \<noteq> kBinaryDumpMagicNumber"
proof -
  obtain s' where s': "stream_read 4 (open_stream s) = (take 4 s, s')"
    using stream_read_open [of 4 s] by (metis prod.collapse)
  have "bytes_u32 (overlay (take 4 s) (u32_bytes 0)) \<noteq> kBinaryDumpMagicNumber"
    using magic_bytes assms(2) by blast
  with s' assms(1) show ?thesis by (auto simp: ds_restore_def)
qed

theorem restore_bad_magic_witness:
  "\<exists>got. ds_restore ref_boost alist_db (\<lambda>i. CHR ''?'') 0 (demo_table []) (open_stream ''dump'') True =
     Some (Inl (Exc (BadMagic got kBinaryDumpMagicNumber)), demo_table [])"
proof -
  have "of_char (u32_bytes kBinaryDumpMagicNumber ! 0) \<noteq> (of_char (''dump'' ! 0) :: nat)"
    by (simp add: u32_bytes_def le_bytes_nth kBinaryDumpMagicNumber_def)
  then have "u32_bytes kBinaryDumpMagicNumber \<noteq> ''dump''" by (metis (full_types))
  then have "take 4 ''dump'' \<noteq> u32_bytes kBinaryDumpMagicNumber" by simp
  from restore_bad_magic [where ds = "demo_table []" and B = ref_boost and L = alist_db
      and heap = "\<lambda>i. CHR ''?''" and junk = 0, OF demo_table_open this]
  show ?thesis by auto
qed



text \<open>
  C30. The binary restore never returns once reading fails: when the file begins with the magic
  number and a read error comes anywhere behind it, \<open>eof\<close> is never set, and on a database
  that accepts every write the loop goes on pushing and writing pairs forever.
\<close>

theorem restore_read_error_diverges:
  assumes "leveldb_no_error L" and "db ds \<noteq> None"
  shows "ds_restore B L heap junk ds
           ((open_stream (u32_bytes kBinaryDumpMagicNumber @ s))\<lparr>broken := True\<rparr>) True = None"
proof -
  let ?s = "(open_stream (u32_bytes kBinaryDumpMagicNumber @ s))\<lparr>broken := True\<rparr>"
  have "stream_read 4 ?s = (u32_bytes kBinaryDumpMagicNumber, ?s\<lparr>rest := s\<rparr>)"
    by (rule magic_first) (simp_all add: good_def open_stream_def)
  moreover have "restore_binary_loop heap L
      \<lparr>rl_key = junk, rl_value_size = 0, rl_buffer = [], rl_stream = ?s\<lparr>rest := s\<rparr>\<rparr> [] ds = None"
    by (rule restore_binary_never [OF assms]) simp_all
  ultimately show ?thesis using assms(2) by (auto simp: ds_restore_def)
qed

theorem restore_read_error_diverges_witness:
  "ds_restore ref_boost alist_db (\<lambda>i. CHR ''?'') 0 (demo_table [])
     ((open_stream (u32_bytes kBinaryDumpMagicNumber @ ''abc''))\<lparr>broken := True\<rparr>) True = None"
  by (rule restore_read_error_diverges [OF alist_db_no_error demo_table_open])

end
