(* ===== verification/Tools.thy ===== *)
theory Tools
  imports Command_Line Dump_Restore
begin

text \<open>
  numexport.cpp and numimport.cpp: the programs that copy a database to a file and back.
  What they print to the error stream is left out.
\<close>

section \<open>numexport\<close>

record export_opts =
  eo_data_dir :: string
  eo_output_file :: string
  eo_binary_dump :: bool

definition export_opts_default :: export_opts where
  "export_opts_default = \<lparr>eo_data_dir = [], eo_output_file = [], eo_binary_dump = False\<rparr>"

fun export_getopt :: "getopt_result \<Rightarrow> export_opts \<Rightarrow> export_opts flow" where
  "export_getopt [] o' = Go o'"
| "export_getopt ((c, optarg) # opts) o' =
     (if c = CHR ''d'' then export_getopt opts (o'\<lparr>eo_data_dir := optarg\<rparr>)
      else if c = CHR ''o'' then export_getopt opts (o'\<lparr>eo_output_file := optarg\<rparr>)
      else if c = CHR ''h'' then Exits True
      else if c = CHR ''b'' then export_getopt opts (o'\<lparr>eo_binary_dump := True\<rparr>)
      else Exits False)"

definition export_shortopts :: string where
  "export_shortopts = ''d:o:hb''"

definition export_argv :: "string list \<Rightarrow> getopt_result" where
  "export_argv argv = getopt export_shortopts argv"

definition export_usage :: "string \<Rightarrow> string list" where
  "export_usage program =
     [''Usage: '' @ program @ '' [-h] -d DIR [-o FILE]'', [], ''Arguments:'',
      ''  -h       write this help message'',
      ''  -d DIR   directory with leveldb data files'',
      ''  -o FILE  file where to output data'',
      ''  -b       produce binary dump'']"

text \<open>The options may be given apart or in one word.\<close>

lemma export_command_line:
  assumes "dir \<noteq> []"
  shows "export_getopt (export_argv [''-d'', dir, ''-o'', file]) export_opts_default =
           Go \<lparr>eo_data_dir = dir, eo_output_file = file, eo_binary_dump = False\<rparr>"
    and "export_getopt (export_argv [''-d'' @ dir, ''-bo'', file]) export_opts_default =
           Go \<lparr>eo_data_dir = dir, eo_output_file = file, eo_binary_dump = True\<rparr>"
  using assms
  by (simp_all add: export_argv_def getopt_def export_shortopts_def export_opts_default_def)

text \<open>Where the dump went, and what was written of it.\<close>

datatype sink = NoOutput | StdOut string | OutFile string string

text \<open>\<open>dump\<close> is called outside of any \<open>try\<close> block: its exceptions leave \<open>main\<close>.\<close>

fun dump_end :: "error + unit \<Rightarrow> unit flow" where
  "dump_end (Inr _) = Go ()"
| "dump_end (Inl (Exc x)) = Throws x"
| "dump_end (Inl (UB u)) = FlowUndefined u"

text \<open>\<open>can_write\<close> says which files \<open>std::ofstream\<close> can open; \<open>Go ()\<close> is \<open>EXIT_SUCCESS\<close>.\<close>

definition numexport_main ::
  "'db leveldb \<Rightarrow> (string \<Rightarrow> bool) \<Rightarrow> num_id \<Rightarrow> getopt_result \<Rightarrow> sink \<times> unit flow" where
  "numexport_main L can_write junk opts =
     (case export_getopt opts export_opts_default of
        Go o' \<Rightarrow>
          if eo_data_dir o' = [] then (NoOutput, Exits False)
          else
            (case ds_init L (eo_data_dir o') 0 ds_new of
               (Inl (Exc _), _) \<Rightarrow> (NoOutput, Exits False)
             | (Inl (UB u), _) \<Rightarrow> (NoOutput, FlowUndefined u)
             | (Inr _, ds) \<Rightarrow>
                 if eo_output_file o' \<noteq> [] then
                   if \<not> can_write (cstr (eo_output_file o')) then (NoOutput, Exits False)
                   else
                     (case ds_dump L junk ds (eo_binary_dump o') of (r, out) \<Rightarrow>
                        (OutFile (cstr (eo_output_file o')) out, dump_end r))
                 else
                   (case ds_dump L junk ds False of (r, out) \<Rightarrow> (StdOut out, dump_end r)))
      | Throws x \<Rightarrow> (NoOutput, Throws x)
      | Exits ok \<Rightarrow> (NoOutput, Exits ok)
      | FlowUndefined u \<Rightarrow> (NoOutput, FlowUndefined u))"

section \<open>numimport\<close>

record import_opts =
  io_data_dir :: string
  io_data_file :: string
  io_binary_dump :: bool

definition import_opts_default :: import_opts where
  "import_opts_default = \<lparr>io_data_dir = [], io_data_file = [], io_binary_dump = False\<rparr>"

fun import_getopt :: "getopt_result \<Rightarrow> import_opts \<Rightarrow> import_opts flow" where
  "import_getopt [] o' = Go o'"
| "import_getopt ((c, optarg) # opts) o' =
     (if c = CHR ''d'' then import_getopt opts (o'\<lparr>io_data_dir := optarg\<rparr>)
      else if c = CHR ''i'' then import_getopt opts (o'\<lparr>io_data_file := optarg\<rparr>)
      else if c = CHR ''h'' then Exits True
      else if c = CHR ''b'' then import_getopt opts (o'\<lparr>io_binary_dump := True\<rparr>)
      else Exits False)"

definition import_shortopts :: string where
  "import_shortopts = ''d:i:hb''"

definition import_argv :: "string list \<Rightarrow> getopt_result" where
  "import_argv argv = getopt import_shortopts argv"

definition import_usage :: "string \<Rightarrow> string list" where
  "import_usage program =
     [''Usage: '' @ program @ '' [-h] -d DIR -i FILE'', [], ''Arguments:'',
      ''  -h       write this help message'',
      ''  -d DIR   directory with leveldb data files'',
      ''  -i FILE  file with data to import into leveldb database'',
      ''  -b       restore from binary dump'']"

text \<open>The options may be given apart or in one word.\<close>

lemma import_command_line:
  assumes "dir \<noteq> []"
  shows "import_getopt (import_argv [''-d'', dir, ''-i'', file]) import_opts_default =
           Go \<lparr>io_data_dir = dir, io_data_file = file, io_binary_dump = False\<rparr>"
    and "import_getopt (import_argv [''-d'' @ dir, ''-bi'', file]) import_opts_default =
           Go \<lparr>io_data_dir = dir, io_data_file = file, io_binary_dump = True\<rparr>"
  using assms
  by (simp_all add: import_argv_def getopt_def import_shortopts_def import_opts_default_def)

text \<open>Everything behind the options stands in a \<open>try\<close> block that ends in \<open>exit\<close>.\<close>

fun import_end :: "error + unit \<Rightarrow> unit flow" where
  "import_end (Inr _) = Go ()"
| "import_end (Inl (Exc x)) = Exits False"
| "import_end (Inl (UB u)) = FlowUndefined u"

definition numimport_main ::
  "boost \<Rightarrow> 'db leveldb \<Rightarrow> (string \<Rightarrow> istream option) \<Rightarrow> (nat \<Rightarrow> char) \<Rightarrow> num_id \<Rightarrow> getopt_result \<Rightarrow>
     (unit flow \<times> 'db disk_storage) option" where
  "numimport_main B L open_file heap junk opts =
     (case import_getopt opts import_opts_default of
        Go o' \<Rightarrow>
          if io_data_dir o' = [] then Some (Exits False, ds_new)
          else if io_data_file o' = [] then Some (Exits False, ds_new)
          else
            (case ds_init L (io_data_dir o') 0 ds_new of
               (Inl e, ds) \<Rightarrow> Some (import_end (Inl e), ds)
             | (Inr _, ds) \<Rightarrow>
                 (case open_file (cstr (io_data_file o')) of
                    None \<Rightarrow> Some (import_end (Inl (Exc (CannotOpenStream (io_data_file o')))), ds)
                  | Some stream \<Rightarrow>
                      map_option (\<lambda>(r, ds'). (import_end r, ds'))
                        (ds_restore B L heap junk ds stream (io_binary_dump o'))))
      | Throws x \<Rightarrow> Some (Throws x, ds_new)
      | Exits ok \<Rightarrow> Some (Exits ok, ds_new)
      | FlowUndefined u \<Rightarrow> Some (FlowUndefined u, ds_new))"

section \<open>Facts\<close>

lemma ds_init_opens:
  assumes "leveldb_ok L" and "ds_init L path cache ds0 = (Inr (), ds)"
  shows "db ds \<noteq> None"
  using assms
  by (auto simp: ds_init_def leveldb_ok_def Let_def split: prod.splits if_splits)

lemma export_getopt_no_file:
  "export_getopt opts o' = Go o'' \<Longrightarrow> CHR ''o'' \<notin> fst ` set opts \<Longrightarrow>
   eo_output_file o'' = eo_output_file o'"
proof (induction opts arbitrary: o')
  case (Cons a opts)
  obtain c arg where a: "a = (c, arg)" by (cases a)
  obtain o1 where "export_getopt opts o1 = Go o''" "eo_output_file o1 = eo_output_file o'"
    using Cons.prems a by (auto split: if_splits)
  with Cons.IH Cons.prems(2) show ?case by simp
qed simp

text \<open>Without \<open>-b\<close> the options are the same, but for the one flag.\<close>

lemma export_getopt_no_binary:
  "export_getopt (filter (\<lambda>(c, _). c \<noteq> CHR ''b'') opts) (o'\<lparr>eo_binary_dump := b\<rparr>) =
     map_flow (\<lambda>o''. o''\<lparr>eo_binary_dump := b\<rparr>) (export_getopt opts o')"
proof (induction opts arbitrary: o')
  case (Cons a opts)
  obtain c arg where a: "a = (c, arg)" by (cases a)
  have upd: "o'\<lparr>eo_binary_dump := b, eo_data_dir := arg\<rparr> = o'\<lparr>eo_data_dir := arg, eo_binary_dump := b\<rparr>"
    "o'\<lparr>eo_binary_dump := b, eo_output_file := arg\<rparr> = o'\<lparr>eo_output_file := arg, eo_binary_dump := b\<rparr>"
    by simp_all
  show ?case
    using Cons.IH [of "o'\<lparr>eo_data_dir := arg\<rparr>"] Cons.IH [of "o'\<lparr>eo_output_file := arg\<rparr>"]
      Cons.IH [of "o'\<lparr>eo_binary_dump := True\<rparr>"]
    unfolding a by (simp del: export_opts.update_convs add: upd)
qed simp

section \<open>Properties\<close>

text \<open>
  numexport ignores \<open>-b\<close> when no output file is named: without \<open>-o\<close>, the program does
  exactly what it does with every \<open>-b\<close> taken off the command line, so what goes to the
  standard output is a text dump even when a binary one is asked for.
\<close>

theorem export_binary_needs_file:
  assumes "CHR ''o'' \<notin> fst ` set opts"
  shows "numexport_main L can_write junk opts =
           numexport_main L can_write junk (filter (\<lambda>(c, _). c \<noteq> CHR ''b'') opts)"
proof -
  have d: "export_opts_default\<lparr>eo_binary_dump := False\<rparr> = export_opts_default"
    by (simp add: export_opts_default_def)
  have g: "export_getopt (filter (\<lambda>(c, _). c \<noteq> CHR ''b'') opts) export_opts_default =
      map_flow (\<lambda>o''. o''\<lparr>eo_binary_dump := False\<rparr>) (export_getopt opts export_opts_default)"
    using export_getopt_no_binary [where opts = opts and o' = export_opts_default and b = False] by (simp only: d)
  show ?thesis
  proof (cases "export_getopt opts export_opts_default")
    case (Go o')
    then have "eo_output_file o' = []"
      using export_getopt_no_file [OF Go assms] by (simp add: export_opts_default_def)
    with g Go show ?thesis
      by (simp add: numexport_main_def split: prod.split sum.split error.split)
  qed (use g in \<open>simp_all add: numexport_main_def\<close>)
qed

theorem export_binary_needs_file_witness:
  "fst (numexport_main (open_db [(id_bytes 1, ''a'')]) (\<lambda>f. True) 0 [(CHR ''d'', ''/data''), (CHR ''b'', [])]) =
     StdOut (print_id 1 @ [tab] @ ''a'' @ [newline])"
proof -
  have "CHR ''o'' \<notin> fst ` set [(CHR ''d'', ''/data''), (CHR ''b'', [])]" by simp
  from export_binary_needs_file [OF this, of "open_db [(id_bytes 1, ''a'')]" "\<lambda>f. True" 0]
  show ?thesis
    by (simp add: numexport_main_def export_opts_default_def ds_init_def open_db_def alist_db_def Let_def
        ds_new_def ds_dump_def dump_entry_def memcpy_id_full AList.clearjunk.simps)
qed

lemma tool_argv [simp]:
  "export_argv [''-d'', dir, ''-o'', file, ''-b''] = [(CHR ''d'', dir), (CHR ''o'', file), (CHR ''b'', [])]"
  "import_argv [''-d'', dir, ''-i'', file, ''-b''] = [(CHR ''d'', dir), (CHR ''i'', file), (CHR ''b'', [])]"
  by (simp_all add: export_argv_def import_argv_def getopt_def export_shortopts_def import_shortopts_def)

text \<open>
  C18. Export and import move a whole database: when \<open>numexport -d DIR -o FILE -b\<close> copies a healthy table
  that is not empty to a file, it exits with success, and \<open>numimport -d DIR -i FILE -b\<close>, run on
  that file and another database, exits with success too and leaves this database with every entry
  of the first one, and its own entries at all other ids.
\<close>

theorem export_import:
  assumes "leveldb_ok L" and "leveldb_no_error L"
    and "dir1 \<noteq> []" and "dir2 \<noteq> []" and "cstr file \<noteq> []" and "can_write (cstr file)"
    and "ds_init L dir1 0 ds_new = (Inr (), ds1)" and "ds_init L dir2 0 ds_new = (Inr (), ds2)"
    and "ds_wf L ds1" and "ds_view L ds1 \<noteq> Map.empty"
    and "\<forall>v \<in> ran (ds_view L ds1). length v < 2 ^ 32"
    and "numexport_main L can_write junk (export_argv [''-d'', dir1, ''-o'', file, ''-b'']) =
           (OutFile name out, end1)"
    and "open_file (cstr file) = Some (open_stream out)"
  shows "name = cstr file \<and> end1 = Go () \<and>
         (\<exists>ds2'. numimport_main B L open_file heap junk'
              (import_argv [''-d'', dir2, ''-i'', file, ''-b'']) = Some (Go (), ds2') \<and>
            ds_view L ds2' = ds_view L ds2 ++ ds_view L ds1)"
proof -
  have nonempty: "file \<noteq> []" using assms(5) by (auto simp: cstr_def)
  obtain out' ds2' where d: "ds_dump L junk ds1 True = (Inr (), out')"
    and r: "ds_restore B L heap junk' ds2 (open_stream out') True = Some (Inr (), ds2')"
    and v: "ds_view L ds2' = ds_view L ds2 ++ ds_view L ds1"
    using binary_transfer [OF assms(1,2,9) ds_init_opens [OF assms(1,8)] assms(10,11), of junk B heap junk']
    by blast
  have "numexport_main L can_write junk (export_argv [''-d'', dir1, ''-o'', file, ''-b'']) =
      (OutFile (cstr file) out', Go ())"
    using assms(3,6,7) nonempty d by (simp add: numexport_main_def export_opts_default_def)
  then have o: "name = cstr file" "end1 = Go ()" "out = out'" using assms(12) by simp_all
  have "numimport_main B L open_file heap junk' (import_argv [''-d'', dir2, ''-i'', file, ''-b'']) =
      Some (Go (), ds2')"
    using assms(4,8,13) nonempty r o(3) by (simp add: numimport_main_def import_opts_default_def)
  with o v show ?thesis by blast
qed

definition dir_db :: "(string \<Rightarrow> kv_pair list) \<Rightarrow> (string \<times> string) list leveldb" where
  "dir_db dirs =
     alist_db\<lparr>ldb_Open := (\<lambda>opts path. (StOk, Some (map (\<lambda>(i, v). (id_bytes i, v)) (dirs path))))\<rparr>"

lemma dir_db_ok [simp]: "leveldb_ok (dir_db dirs)"
  using alist_db_ok by (simp add: leveldb_ok_def dir_db_def)

lemma dir_db_no_error [simp]: "leveldb_no_error (dir_db dirs)"
  using alist_db_no_error by (simp add: leveldb_no_error_def dir_db_def)

lemma dir_db_init:
  "\<exists>ds. ds_init (dir_db dirs) dir 0 ds_new = (Inr (), ds) \<and> ds_wf (dir_db dirs) ds \<and>
     ds_view (dir_db dirs) ds = map_of (dirs dir)"
proof -
  let ?ds = "(demo_table (dirs dir))\<lparr>options := \<lparr>create_if_missing = True, block_cache = None,
     filter_policy = Some 10\<rparr>\<rparr>"
  have "ds_init (dir_db dirs) dir 0 ds_new = (Inr (), ?ds)"
    by (simp add: ds_init_def dir_db_def demo_table_def ds_new_def kBloomFilterBits_def Let_def)
  moreover have "ds_wf (dir_db dirs) ?ds"
    using demo_table_wf [of "dirs dir"] by (simp add: ds_wf_def dir_db_def)
  moreover have "ds_view (dir_db dirs) ?ds = map_of (dirs dir)"
    unfolding demo_table_view [symmetric]
    by (simp add: ds_view_def dir_db_def fun_eq_iff del: demo_table_view split: option.split)
  ultimately show ?thesis by blast
qed

definition demo_dirs :: "string \<Rightarrow> kv_pair list" where
  "demo_dirs dir = (if dir = ''/old'' then [(1, ''a'')] else [(2, ''b'')])"

theorem export_import_witness:
  "\<exists>out ds2'. fst (numexport_main (dir_db demo_dirs) (\<lambda>f. True) 0
       (export_argv [''-d'', ''/old'', ''-o'', ''dump'', ''-b''])) = OutFile ''dump'' out \<and>
     numimport_main ref_boost (dir_db demo_dirs) (\<lambda>f. Some (open_stream out)) (\<lambda>i. CHR ''?'') 0
       (import_argv [''-d'', ''/new'', ''-i'', ''dump'', ''-b'']) = Some (Go (), ds2') \<and>
     ds_view (dir_db demo_dirs) ds2' = [1 \<mapsto> ''a'', 2 \<mapsto> ''b'']"
proof -
  obtain ds1 where ds1: "ds_init (dir_db demo_dirs) ''/old'' 0 ds_new = (Inr (), ds1)"
    "ds_wf (dir_db demo_dirs) ds1" "ds_view (dir_db demo_dirs) ds1 = [1 \<mapsto> ''a'']"
    using dir_db_init [of demo_dirs "''/old''"] by (auto simp: demo_dirs_def)
  obtain ds2 where ds2: "ds_init (dir_db demo_dirs) ''/new'' 0 ds_new = (Inr (), ds2)"
    "ds_view (dir_db demo_dirs) ds2 = [2 \<mapsto> ''b'']"
    using dir_db_init [of demo_dirs "''/new''"] by (auto simp: demo_dirs_def)
  have c: "cstr ''dump'' = ''dump''" by (simp add: cstr_def)
  obtain out end1 where e: "numexport_main (dir_db demo_dirs) (\<lambda>f. True) 0
      (export_argv [''-d'', ''/old'', ''-o'', ''dump'', ''-b'']) = (OutFile ''dump'' out, end1)"
    using ds1(1) c by (simp add: numexport_main_def export_opts_default_def split_def)
  have ne: "ds_view (dir_db demo_dirs) ds1 \<noteq> Map.empty" using ds1(3) by (simp del: fun_upd_apply)
  have small: "\<forall>v \<in> ran (ds_view (dir_db demo_dirs) ds1). length v < 2 ^ 32" using ds1(3) by simp
  from export_import [OF dir_db_ok dir_db_no_error _ _ _ _ ds1(1) ds2(1) ds1(2) ne small e,
      of "\<lambda>f. Some (open_stream out)" ref_boost "\<lambda>i. CHR ''?''" 0] c e ds1(3) ds2(2)
  show ?thesis by (auto simp: fun_upd_twist)
qed

end
