(* ===== verification/Cli.thy ===== *)
theory Cli
  imports Command_Line Std_Stream Thrift_Service
begin

text \<open>
  numeratorcli.cpp: the command line client.  It reads a file of strings or ids, asks the
  server for them in batches and prints one line per answer.  The local variable \<open>cnt\<close> of
  \<open>run\<close> is never initialised; its first value is an argument of the model.
\<close>

section \<open>The arguments\<close>

record cmd_line_args =
  numerator :: string
  qtype :: string
  data_file :: string
  batch_size :: "64 word"

definition cli_args_default :: cmd_line_args where
  "cli_args_default =
     \<lparr>numerator = ''127.0.0.1:9090'', qtype = [], data_file = [], batch_size = 1000\<rparr>"

fun cli_getopt :: "boost \<Rightarrow> getopt_result \<Rightarrow> cmd_line_args \<Rightarrow> cmd_line_args flow" where
  "cli_getopt B [] a = Go a"
| "cli_getopt B ((c, optarg) # opts) a =
     (if c = CHR ''d'' then cli_getopt B opts (a\<lparr>data_file := optarg\<rparr>)
      else if c = CHR ''n'' then cli_getopt B opts (a\<lparr>numerator := optarg\<rparr>)
      else if c = CHR ''t'' then cli_getopt B opts (a\<lparr>qtype := optarg\<rparr>)
      else if c = CHR ''b'' then
        (case lexical_cast_size B optarg of
           Inl what \<Rightarrow> Throws (InvalidBatchSize optarg what)
         | Inr n \<Rightarrow> cli_getopt B opts (a\<lparr>batch_size := n\<rparr>))
      else if c = CHR ''h'' then Exits True
      else Exits False)"

definition cli_shortopts :: string where
  "cli_shortopts = ''d:n:t:b:h''"

definition cli_longopts :: "long_option list" where
  "cli_longopts =
     [required_argument ''numerator'' (CHR ''n''), required_argument ''type'' (CHR ''t''),
      required_argument ''data'' (CHR ''d''), required_argument ''batch-size'' (CHR ''b''),
      no_argument ''help'' (CHR ''h'')]"

definition cli_argv :: "string list \<Rightarrow> getopt_result" where
  "cli_argv argv = getopt_long cli_shortopts (Some cli_longopts) argv"

definition cli_usage :: "string \<Rightarrow> string list" where
  "cli_usage program =
     [''Usage: '' @ program @ '' args'', [], ''Arguments:'',
      ''  -h,--help            write this help message and exit'',
      ''  -n,--numerator arg   numerator'' @ [CHR 0x27] @ ''s address (location:port, default 127.0.0.1:9090)'',
      ''  -t,--type arg        type of the query ('' @ [CHR 0x27] @ ''s2i'' @ [CHR 0x27] @ '' or '' @ [CHR 0x27] @ ''i2s'' @ [CHR 0x27] @ '')'',
      ''  -d,--data arg        file with data (one string per line)'',
      ''  -b,--batch-size arg  number of items in one request'', []]"

lemma cli_options_agree: "options_agree cli_shortopts cli_longopts"
  by (simp add: options_agree_def cli_shortopts_def cli_longopts_def)

lemma cli_usage_complete:
  "\<forall>l \<in> set cli_longopts. \<exists>line \<in> set (cli_usage program).
     prefix (''  -'' @ lo_val l # '',--'' @ lo_name l @ '' '') line"
  by (simp add: cli_longopts_def cli_usage_def)

text \<open>However they are spelled, these options give the client exactly these arguments.\<close>

definition cli_spelled :: "(char \<Rightarrow> spelling) \<Rightarrow> cmd_line_args \<Rightarrow> string list" where
  "cli_spelled sp a = spelled_all
     [(sp (CHR ''n''), required_argument ''numerator'' (CHR ''n''), numerator a),
      (sp (CHR ''t''), required_argument ''type'' (CHR ''t''), qtype a),
      (sp (CHR ''d''), required_argument ''data'' (CHR ''d''), data_file a),
      (sp (CHR ''b''), required_argument ''batch-size'' (CHR ''b''), print_nat (unat (batch_size a)))]"

lemma cli_command_line:
  assumes "boost_ok B" and "numerator a \<noteq> []" and "qtype a \<noteq> []" and "data_file a \<noteq> []"
  shows "cli_getopt B (cli_argv (cli_spelled sp a)) cli_args_default = Go a"
proof -
  have "cli_argv (cli_spelled sp a) =
      [(CHR ''n'', numerator a), (CHR ''t'', qtype a), (CHR ''d'', data_file a),
       (CHR ''b'', print_nat (unat (batch_size a)))]"
    unfolding cli_argv_def cli_spelled_def
    by (subst getopt_spelled_all [OF cli_options_agree, where argv = "[]", simplified])
       (use assms(2-4) in \<open>auto simp: cli_longopts_def\<close>)
  then show ?thesis
    using lexical_cast_print_unsigned(1) [OF assms(1), of "batch_size a"] by (simp add: cli_args_default_def)
qed

definition parse_cmd_line_args :: "boost \<Rightarrow> getopt_result \<Rightarrow> cmd_line_args flow" where
  "parse_cmd_line_args B opts =
     flow_bind (cli_getopt B opts cli_args_default)
       (\<lambda>a. if numerator a = [] then Exits False
            else if data_file a = [] then Exits False
            else if qtype a = [] then Exits False
            else if qtype a \<noteq> ''s2i'' \<and> qtype a \<noteq> ''i2s'' then Exits False
            else if \<not> 0 < batch_size a then Throws BatchSizeNotPositive
            else Go a)"

definition split_host_port :: "boost \<Rightarrow> cmd_line_args \<Rightarrow> (string \<times> 32 word) flow" where
  "split_host_port B a =
     (let tokens = boost_split B '':'' True (numerator a) in
      if length tokens \<noteq> 2 then Throws (InvalidAddress (numerator a))
      else
        (case lexical_cast_int B (tokens ! 1) of
           Inl what \<Rightarrow> Throws (InvalidAddressPort (numerator a) what)
         | Inr port \<Rightarrow> Go (tokens ! 0, port)))"

section \<open>One request\<close>

text \<open>How the rest of the program ends; every constructor but \<open>Done\<close> ends it for good.\<close>

datatype cli_exc = FromThrift texc | FromExc exc | BadCast string | ReserveFailed

datatype 'c outcome = Done 'c | Raised cli_exc | NoReply | CliUndefined ub

text \<open>
  The output of a step and its outcome, and the step after it.
\<close>

definition and_then :: "string \<times> 'c outcome \<Rightarrow> ('c \<Rightarrow> string \<times> 'c outcome) \<Rightarrow> string \<times> 'c outcome" where
  "and_then m f =
     (case m of
        (out, Done c) \<Rightarrow> (case f c of (out', r) \<Rightarrow> (out @ out', r))
      | (out, r) \<Rightarrow> (out, r))"

text \<open>The loop over the strings of an answer; \<open>idx\<close> is counted up after each of them.\<close>

fun print_strings :: "failure_idx set \<Rightarrow> failure_idx \<Rightarrow> string list \<Rightarrow> string \<times> unit outcome" where
  "print_strings failures idx [] = ([], Done ())"
| "print_strings failures idx (v # vs) =
     (let line = (if idx \<in> failures then ''!!! NOT FOUND !!!'' else v) @ [newline] in
      if idx = max_failure_idx then (line, CliUndefined SignedOverflow)
      else (case print_strings failures (idx + 1) vs of (out, r) \<Rightarrow> (line @ out, r)))"

type_synonym 'c client_query = "query \<Rightarrow> query \<Rightarrow> ('c, query) rd"

definition do_query ::
  "'c client_query \<Rightarrow> operation \<Rightarrow> num_id list \<Rightarrow> string list \<Rightarrow> 'c \<Rightarrow> string \<times> 'c outcome" where
  "do_query client op ids strings c =
     (case client Query_new (Query_new\<lparr>q_op := op, q_strings := strings, q_ids := ids\<rparr>) c of
        None \<Rightarrow> ([], NoReply)
      | Some (Inl e) \<Rightarrow> ([], Raised (FromThrift e))
      | Some (Inr (result, c')) \<Rightarrow>
          if op = STR2ID then (concat (map (\<lambda>v. print_id v @ [newline]) (q_ids result)), Done c')
          else
            (case print_strings (set (q_failures result)) 0 (q_strings result) of
               (out, Done _) \<Rightarrow> (out, Done c')
             | (out, CliUndefined u) \<Rightarrow> (out, CliUndefined u)
             | (out, Raised x) \<Rightarrow> (out, Raised x)
             | (out, NoReply) \<Rightarrow> (out, NoReply)))"

section \<open>The file\<close>

text \<open>
  The loop over the lines with the code's state: the counter, the ids and the strings that
  are collected for the next request.
\<close>

function run_loop ::
  "boost \<Rightarrow> 'c client_query \<Rightarrow> operation \<Rightarrow> 64 word \<Rightarrow> istream \<Rightarrow> 64 word \<Rightarrow> num_id list \<Rightarrow>
     string list \<Rightarrow> 'c \<Rightarrow> string \<times> 'c outcome" where
  "run_loop B client op batch stream count ids strings c =
     (case getline stream of (ok, line, stream') \<Rightarrow>
        if ok then
          (case (if op = STR2ID then Inr (ids, strings @ [line])
                 else if op = ID2STR then
                   (case lexical_cast_i64 B line of
                      Inl what \<Rightarrow> Inl what | Inr i \<Rightarrow> Inr (ids @ [i], strings))
                 else Inr (ids, strings)) of
             Inl what \<Rightarrow> ([], Raised (BadCast what))
           | Inr (ids', strings') \<Rightarrow>
               if batch \<le> count + 1
               then and_then (do_query client op ids' strings' c)
                      (\<lambda>c'. run_loop B client op batch stream' 0 [] [] c')
               else run_loop B client op batch stream' (count + 1) ids' strings' c)
        else if 0 < count then do_query client op ids strings c
        else ([], Done c))"
  by pat_completeness auto
termination
  by (relation "measure (\<lambda>(B, client, op, batch, stream, count, ids, strings, c). size stream)")
     (auto dest: getline_shrinks [OF sym])

declare run_loop.simps [simp del]

text \<open>
  \<open>open_file\<close> is the file system, \<open>can_reserve\<close> says for which sizes both vectors can reserve
  their memory, \<open>cnt0\<close> is what happens to be in \<open>cnt\<close>.
\<close>

definition run_cli ::
  "boost \<Rightarrow> 'c client_query \<Rightarrow> (string \<Rightarrow> istream option) \<Rightarrow> (64 word \<Rightarrow> bool) \<Rightarrow> 64 word \<Rightarrow>
     cmd_line_args \<Rightarrow> 'c \<Rightarrow> string \<times> 'c outcome" where
  "run_cli B client open_file can_reserve cnt0 args c =
     (case open_file (cstr (data_file args)) of
        None \<Rightarrow> ([], Raised (FromExc (CannotOpenFile (data_file args))))
      | Some stream \<Rightarrow>
          let op = (if qtype args = ''s2i'' then STR2ID else ID2STR) in
          if \<not> can_reserve (batch_size args) then ([], Raised ReserveFailed)
          else run_loop B client op (batch_size args) stream cnt0 [] [] c)"

section \<open>main\<close>

datatype 'c cli_end = Served 'c | CliExit bool | Waits | Leaves ub

definition run_end :: "'c outcome \<Rightarrow> 'c cli_end" where
  "run_end r =
     (case r of
        Done c \<Rightarrow> Served c | Raised x \<Rightarrow> CliExit False | NoReply \<Rightarrow> Waits | CliUndefined u \<Rightarrow> Leaves u)"

text \<open>\<open>connect\<close> is the construction of the socket and \<open>open()\<close> on the transport over it.\<close>

definition numeratorcli_main ::
  "boost \<Rightarrow> 'p tprotocol \<Rightarrow> (string \<Rightarrow> 32 word \<Rightarrow> texc + 'p) \<Rightarrow> (string \<Rightarrow> istream option) \<Rightarrow>
     (64 word \<Rightarrow> bool) \<Rightarrow> 64 word \<Rightarrow> getopt_result \<Rightarrow> string \<times> 'p cli_end" where
  "numeratorcli_main B P connect open_file can_reserve cnt0 opts =
     (case flow_bind (parse_cmd_line_args B opts)
             (\<lambda>a. flow_bind (split_host_port B a) (\<lambda>hp. Go (a, hp))) of
        Throws x \<Rightarrow> ([], CliExit False)
      | Exits ok \<Rightarrow> ([], CliExit ok)
      | FlowUndefined u \<Rightarrow> ([], Leaves u)
      | Go (args, host, port) \<Rightarrow>
          (case connect host port of
             Inl e \<Rightarrow> ([], CliExit False)
           | Inr c \<Rightarrow>
               (case NumeratorClient_ping P c of
                  None \<Rightarrow> ([], Waits)
                | Some (Inl e) \<Rightarrow> ([], CliExit False)
                | Some (Inr (_, c')) \<Rightarrow>
                    apsnd run_end
                      (run_cli B (NumeratorClient_query P) open_file can_reserve cnt0 args c'))))"

section \<open>The specification: one request per batch of lines\<close>

text \<open>A file of lines, each ended by a newline, and a list in pieces of \<open>n\<close>.\<close>

definition file_text :: "string list \<Rightarrow> string" where
  "file_text ls = concat (map (\<lambda>l. l @ [newline]) ls)"

function chunks :: "nat \<Rightarrow> 'a list \<Rightarrow> 'a list list" where
  "chunks n xs = (if xs = [] \<or> n = 0 then [] else take n xs # chunks n (drop n xs))"
  by pat_completeness auto
termination
  by (relation "measure (length \<circ> snd)") auto

declare chunks.simps [simp del]

lemma chunks_Nil [simp]: "chunks n [] = []"
  by (simp add: chunks.simps)

lemma chunks_short: "xs \<noteq> [] \<Longrightarrow> length xs \<le> n \<Longrightarrow> chunks n xs = [xs]"
  by (cases n) (simp_all add: chunks.simps [of _ xs])

lemma chunks_append: "length xs = n \<Longrightarrow> n \<noteq> 0 \<Longrightarrow> chunks n (xs @ ys) = xs # chunks n ys"
  by (simp add: chunks.simps [of n "xs @ ys"]) auto

lemma concat_chunks: "n \<noteq> 0 \<Longrightarrow> concat (chunks n xs) = xs"
proof (induction n xs rule: chunks.induct)
  case (1 n xs)
  then show ?case by (cases "xs = []") (simp_all add: chunks.simps [of n xs])
qed

lemma chunks_size: "b \<in> set (chunks n xs) \<Longrightarrow> b \<noteq> [] \<and> length b \<le> n"
proof (induction n xs rule: chunks.induct)
  case (1 n xs)
  then show ?case by (auto simp: chunks.simps [of n xs] split: if_splits)
qed

definition line_ids :: "boost \<Rightarrow> operation \<Rightarrow> string list \<Rightarrow> num_id list" where
  "line_ids B op ls = (if op = STR2ID then [] else map (\<lambda>l. projr (lexical_cast_i64 B l)) ls)"

definition line_strings :: "operation \<Rightarrow> string list \<Rightarrow> string list" where
  "line_strings op ls = (if op = STR2ID then ls else [])"

fun ask_all ::
  "boost \<Rightarrow> 'c client_query \<Rightarrow> operation \<Rightarrow> string list list \<Rightarrow> 'c \<Rightarrow> string \<times> 'c outcome" where
  "ask_all B client op [] c = ([], Done c)"
| "ask_all B client op (ls # lss) c =
     and_then (do_query client op (line_ids B op ls) (line_strings op ls) c) (ask_all B client op lss)"

lemma line_Nil [simp]: "line_ids B op [] = []" "line_strings op [] = []"
  by (simp_all add: line_ids_def line_strings_def)

lemma and_then_Done [simp]: "and_then m (\<lambda>c. ([], Done c)) = m"
  by (cases m; cases "snd m") (simp_all add: and_then_def)

lemma ask_all_single: "ask_all B client op [ls] = do_query client op (line_ids B op ls) (line_strings op ls)"
proof -
  have "ask_all B client op [] = (\<lambda>c. ([], Done c))" by (simp add: fun_eq_iff)
  then show ?thesis by (intro ext) (simp only: ask_all.simps(2) and_then_Done)
qed

lemma line_snoc:
  assumes "op = STR2ID \<or> op = ID2STR \<and> (\<exists>i. lexical_cast_i64 B l = Inr i)"
  shows "(if op = STR2ID then Inr (line_ids B op acc, line_strings op acc @ [l])
          else if op = ID2STR then
            (case lexical_cast_i64 B l of
               Inl what \<Rightarrow> Inl what | Inr i \<Rightarrow> Inr (line_ids B op acc @ [i], line_strings op acc))
          else Inr (line_ids B op acc, line_strings op acc)) =
         Inr (line_ids B op (acc @ [l]), line_strings op (acc @ [l]))"
  using assms by (auto simp: line_ids_def line_strings_def)

text \<open>The loop, when the counter says how many lines have been collected.\<close>

lemma run_loop_batches:
  assumes "batch \<noteq> 0" and "\<forall>l \<in> set ls. newline \<notin> set l"
    and "op = STR2ID \<or> op = ID2STR \<and> (\<forall>l \<in> set ls. \<exists>i. lexical_cast_i64 B l = Inr i)"
    and "length acc < unat batch" and "good s" and "\<not> broken s" and "rest s = file_text ls"
  shows "run_loop B client op batch s (of_nat (length acc)) (line_ids B op acc) (line_strings op acc) c =
         ask_all B client op (chunks (unat batch) (acc @ ls)) c"
  using assms
proof (induction ls arbitrary: s acc c)
  case Nil
  have small: "length acc < 2 ^ 64" using Nil.prems(4) unsigned_less [of batch, where 'a = nat] by simp
  have "(0 :: 64 word) < of_nat (length acc) \<longleftrightarrow> acc \<noteq> []"
    using small by (simp add: word_less_nat_alt unsigned_of_nat take_bit_nat_eq_self)
  moreover obtain l s' where "getline s = (False, l, s')"
    using getline_end [of s] Nil.prems(5-7) by (cases "getline s") (auto simp: file_text_def)
  ultimately show ?case
    using Nil.prems(4) chunks_short [of acc "unat batch"]
    by (cases "acc = []")
       (simp_all add: run_loop.simps [of B client op batch s] line_ids_def line_strings_def ask_all_single
         del: ask_all.simps(2))
next
  case (Cons l ls)
  let ?s' = "s\<lparr>rest := file_text ls\<rparr>" and ?n = "unat batch" and ?acc = "acc @ [l]"
  have n: "length acc < 2 ^ 64" "length ?acc < 2 ^ 64 \<or> length ?acc = ?n" "?n < 2 ^ 64"
    using Cons.prems(4) unsigned_less [of batch, where 'a = nat] by auto
  have len: "length ?acc < 2 ^ 64" using Cons.prems(4) n(3) by simp
  have cnt': "(of_nat (length acc) + 1 :: 64 word) = of_nat (length ?acc)" by simp
  have full: "batch \<le> of_nat (length ?acc) \<longleftrightarrow> length ?acc = ?n"
    using len Cons.prems(4)
    by (simp only: word_le_nat_alt unsigned_of_nat) (auto simp: take_bit_nat_eq_self le_Suc_eq)
  have g: "getline s = (True, l, ?s')"
    using getline_line [of s l "file_text ls"] Cons.prems(2,5,7) by (simp add: file_text_def)
  have op: "op = STR2ID \<or> op = ID2STR \<and> (\<exists>i. lexical_cast_i64 B l = Inr i)"
    using Cons.prems(3) by auto
  have IH: "length acc' < ?n \<Longrightarrow>
      run_loop B client op batch ?s' (of_nat (length acc')) (line_ids B op acc') (line_strings op acc') c' =
      ask_all B client op (chunks ?n (acc' @ ls)) c'" for acc' c'
    using Cons.prems by (intro Cons.IH) (auto simp: file_text_def)
  have unfold: "run_loop B client op batch s (of_nat (length acc)) (line_ids B op acc) (line_strings op acc) c =
      (if length ?acc = ?n
       then and_then (do_query client op (line_ids B op ?acc) (line_strings op ?acc) c)
              (\<lambda>c'. run_loop B client op batch ?s' 0 [] [] c')
       else run_loop B client op batch ?s' (of_nat (length ?acc)) (line_ids B op ?acc) (line_strings op ?acc) c)"
    unfolding run_loop.simps [of B client op batch s] g prod.case if_True line_snoc [OF op] sum.case cnt' full
    by (rule refl)
  show ?case
  proof (cases "length ?acc = ?n")
    case True
    have "chunks ?n (acc @ l # ls) = ?acc # chunks ?n ls"
      using chunks_append [OF True, of ls] Cons.prems(4) by simp
    moreover have "run_loop B client op batch ?s' 0 [] [] = ask_all B client op (chunks ?n ls)"
      using IH [of "[]"] Cons.prems(4) by (simp add: fun_eq_iff)
    ultimately show ?thesis unfolding unfold using True by simp
  next
    case False
    then show ?thesis unfolding unfold using IH [of ?acc c] Cons.prems(4) by simp
  qed
qed

lemma run_loop_empty:
  "run_loop B client op batch (open_stream []) count ids strings c =
     (if 0 < count then do_query client op ids strings c else ([], Done c))"
  by (simp add: run_loop.simps [of B client op batch "open_stream []"] getline_def)

lemma run_loop_empty_0 [simp]:
  "run_loop B client op batch (open_stream []) 0 ids strings = (\<lambda>c. ([], Done c))"
  by (simp add: run_loop_empty fun_eq_iff)

lemma print_int_no_colon: "CHR '':'' \<notin> set (print_int i)"
proof
  assume "CHR '':'' \<in> set (print_int i)"
  then have "decimal_char (CHR '':'')"
    using print_nat_decimal by (auto simp: print_int_def decimal_char_def split: if_splits)
  then show False by (simp add: decimal_char_def)
qed

lemma split_host_port_address:
  assumes "boost_ok B" and "numerator a = h @ CHR '':'' # print_int (sint p)" and "CHR '':'' \<notin> set h"
  shows "split_host_port B a = Go (h, p)"
proof -
  have "boost_split B '':'' True (numerator a) = [h, print_int (sint p)]"
    unfolding assms(2)
    by (rule boost_split_two [OF assms(1)]) (use assms(3) print_int_no_colon in auto)
  then show ?thesis by (simp add: split_host_port_def lexical_cast_print_int [OF assms(1)])
qed

section \<open>Properties\<close>

text \<open>
  C19. With its counter at 0 to begin with, the client asks for every line of the file exactly
  once, in order and in requests of at most \<open>batch_size\<close> lines: \<open>run\<close> does what asking for
  the pieces of \<open>batch_size\<close> lines one after the other does, with the same output and the
  same end, whatever the server answers and even when it fails on the way.
\<close>

theorem run_asks_every_line:
  assumes "open_file (cstr (data_file args)) = Some (open_stream (file_text ls))"
    and "\<forall>l \<in> set ls. newline \<notin> set l" and "batch_size args \<noteq> 0" and "can_reserve (batch_size args)"
    and "op = (if qtype args = ''s2i'' then STR2ID else ID2STR)"
    and "op = ID2STR \<longrightarrow> (\<forall>l \<in> set ls. \<exists>i. lexical_cast_i64 B l = Inr i)"
  shows "run_cli B client open_file can_reserve 0 args c =
           ask_all B client op (chunks (unat (batch_size args)) ls) c \<and>
         concat (chunks (unat (batch_size args)) ls) = ls \<and>
         (\<forall>b \<in> set (chunks (unat (batch_size args)) ls). b \<noteq> [] \<and> length b \<le> unat (batch_size args))"
proof -
  have n: "unat (batch_size args) \<noteq> 0" using assms(3) by (simp add: unat_eq_0)
  have "run_loop B client op (batch_size args) (open_stream (file_text ls)) (of_nat (length ([] :: string list)))
      (line_ids B op []) (line_strings op []) c = ask_all B client op (chunks (unat (batch_size args)) ([] @ ls)) c"
    by (rule run_loop_batches) (use assms n in auto)
  then show ?thesis
    using concat_chunks [OF n, of ls] chunks_size [of _ "unat (batch_size args)" ls] assms(1,4)
    by (simp add: run_cli_def assms(5) [symmetric])
qed

text \<open>A server that answers a string with its length, and counts the requests.\<close>

definition demo_client :: "nat client_query" where
  "demo_client ret request c =
     Some (Inr (request\<lparr>q_ids := map (of_nat \<circ> length) (q_strings request)\<rparr>, Suc c))"

definition demo_args :: cmd_line_args where
  "demo_args = cli_args_default\<lparr>qtype := ''s2i'', data_file := ''words'', batch_size := 2\<rparr>"

lemma demo_query_output:
  "do_query demo_client STR2ID [] ls c = (concat (map (\<lambda>l. print_id (of_nat (length l)) @ [newline]) ls), Done (Suc c))"
  by (simp add: do_query_def demo_client_def comp_def)

theorem run_asks_every_line_witness:
  "run_cli ref_boost demo_client (\<lambda>f. Some (open_stream (file_text [''a'', ''bb'', ''ccc'']))) (\<lambda>n. True) 0 demo_args 0 =
     (print_id 1 @ [newline] @ print_id 2 @ [newline] @ print_id 3 @ [newline], Done 2)"
proof -
  have "chunks 2 [''a'', ''bb'', ''ccc''] = [[''a'', ''bb''], [''ccc'']]" by (simp add: chunks.simps)
  then show ?thesis
    using run_asks_every_line [of "\<lambda>f. Some (open_stream (file_text [''a'', ''bb'', ''ccc'']))" demo_args
        "[''a'', ''bb'', ''ccc'']" "\<lambda>n. True" STR2ID ref_boost demo_client 0]
    by (simp add: demo_args_def newline_def line_ids_def line_strings_def demo_query_output and_then_def)
qed


text \<open>
  C21. The uninitialised counter shows in the results: \<open>run\<close> on an empty file still sends a
  request, one for nothing, unless the counter happens to start at 0, and on a file of one
  line it asks for that line unless the counter happens to start at its largest value; then
  the line is dropped and the run ends as a success without output.
\<close>

theorem run_uninitialised_count:
  assumes "open_file (cstr (data_file args)) = Some (open_stream (file_text ls))"
    and "\<forall>l \<in> set ls. newline \<notin> set l" and "batch_size args \<noteq> 0" and "can_reserve (batch_size args)"
    and "qtype args = ''s2i''" and "length ls \<le> 1"
  shows "run_cli B client open_file can_reserve cnt0 args c =
           (case ls of
              [] \<Rightarrow> if cnt0 = 0 then ([], Done c) else do_query client STR2ID [] [] c
            | l # _ \<Rightarrow> if cnt0 = - 1 then ([], Done c) else do_query client STR2ID [] [l] c)"
proof (cases ls)
  case Nil
  then show ?thesis
    using assms by (simp add: run_cli_def file_text_def run_loop_empty word_gt_0)
next
  case (Cons l ls')
  then have ls: "ls = [l]" using assms(6) by simp
  have g: "getline (open_stream (l @ [newline])) = (True, l, open_stream [])"
    using getline_line [of "open_stream (l @ [newline])" l "[]"] assms(2) ls
    by (simp add: open_stream_def good_def)
  have z: "cnt0 + 1 = 0 \<longleftrightarrow> cnt0 = - 1" by (simp add: eq_neg_iff_add_eq_0)
  have "\<not> batch_size args \<le> 0" using assms(3) by simp
  then show ?thesis
    using assms(1,4,5) ls z
    by (auto simp: run_cli_def file_text_def run_loop.simps [of _ _ _ _ "open_stream (l @ [newline])"] g
        run_loop_empty word_gt_0)
qed

theorem run_uninitialised_count_witness:
  "run_cli ref_boost demo_client (\<lambda>f. Some (open_stream (file_text [''a'']))) (\<lambda>n. True) (- 1) demo_args 0 =
     ([], Done 0) \<and>
   run_cli ref_boost demo_client (\<lambda>f. Some (open_stream (file_text [])))  (\<lambda>n. True) 5 demo_args 0 = ([], Done 1)"
  using run_uninitialised_count [of "\<lambda>f. Some (open_stream (file_text [''a'']))" demo_args "[''a'']" "\<lambda>n. True"
      ref_boost demo_client "- 1" 0]
    run_uninitialised_count [of "\<lambda>f. Some (open_stream (file_text []))" demo_args "[]" "\<lambda>n. True"
      ref_boost demo_client 5 0]
  by (simp add: demo_args_def newline_def demo_query_output)


text \<open>
  C38. A client that ends as a success did its work: the arguments named a file, a query type
  that exists and a batch size that is not 0; it connected to the address it was given, where
  \<open>host:port\<close> means that host and that port; the server answered its ping; and what it
  printed is the output of \<open>run\<close>, which came to its end.
\<close>

theorem cli_main_served:
  assumes "numeratorcli_main B P connect open_file can_reserve cnt0 opts = (out, Served c)"
  shows "\<exists>args host port c0 c1. parse_cmd_line_args B opts = Go args \<and> data_file args \<noteq> [] \<and>
           (qtype args = ''s2i'' \<or> qtype args = ''i2s'') \<and> batch_size args \<noteq> 0 \<and>
           (\<forall>h p. boost_ok B \<and> numerator args = h @ CHR '':'' # print_int (sint p) \<and> CHR '':'' \<notin> set h \<longrightarrow>
              host = h \<and> port = p) \<and>
           connect host port = Inr c0 \<and> NumeratorClient_ping P c0 = Some (Inr ((), c1)) \<and>
           run_cli B (NumeratorClient_query P) open_file can_reserve cnt0 args c1 = (out, Done c)"
proof -
  obtain args host port where a: "parse_cmd_line_args B opts = Go args" "split_host_port B args = Go (host, port)"
    and rest: "(case connect host port of
             Inl e \<Rightarrow> ([], CliExit False)
           | Inr c \<Rightarrow>
               (case NumeratorClient_ping P c of
                  None \<Rightarrow> ([], Waits)
                | Some (Inl e) \<Rightarrow> ([], CliExit False)
                | Some (Inr (_, c')) \<Rightarrow>
                    apsnd run_end
                      (run_cli B (NumeratorClient_query P) open_file can_reserve cnt0 args c'))) = (out, Served c)"
    using assms unfolding numeratorcli_main_def by (fastforce split: flow.splits)
  obtain c0 c1 where c: "connect host port = Inr c0" "NumeratorClient_ping P c0 = Some (Inr ((), c1))"
    "apsnd run_end (run_cli B (NumeratorClient_query P) open_file can_reserve cnt0 args c1) = (out, Served c)"
    using rest by (auto split: sum.splits option.splits)
  then have "run_cli B (NumeratorClient_query P) open_file can_reserve cnt0 args c1 = (out, Done c)"
    by (cases "run_cli B (NumeratorClient_query P) open_file can_reserve cnt0 args c1")
       (auto simp: run_end_def split: outcome.splits)
  moreover have "data_file args \<noteq> [] \<and> (qtype args = ''s2i'' \<or> qtype args = ''i2s'') \<and> batch_size args \<noteq> 0"
    using a(1) by (auto simp: parse_cmd_line_args_def split: if_splits)
  moreover have "host = h \<and> port = p"
    if "boost_ok B \<and> numerator args = h @ CHR '':'' # print_int (sint p) \<and> CHR '':'' \<notin> set h" for h p
    using split_host_port_address [of B args h p] a(2) that by auto
  ultimately show ?thesis using a c(1,2) by metis
qed

definition ping_reply :: "wcall list" where
  "ping_reply = WMessageBegin ''ping'' T_REPLY 0 # Numerator_ping_result_write () @ [WMessageEnd]"

lemma ping_answered: "\<exists>c1. NumeratorClient_ping tape_protocol (ping_reply, []) = Some (Inr ((), c1))"
proof -
  have "pending tape_protocol (ping_reply, w) = ping_reply @ []" for w by (simp add: tape_protocol_def)
  then have "\<exists>c1. NumeratorClient_recv_ping tape_protocol (ping_reply, w) = Some (Inr ((), c1))" for w
    using ping_rpc.reply_received [OF tape_protocol_ok, where r = "()" and seqid = 0]
    unfolding NumeratorClient_recv_ping_def ping_reply_def reads_def by blast
  then show ?thesis
    by (simp add: NumeratorClient_ping_def send_recv_def NumeratorClient_send_ping_def tape_emit_all)
qed

theorem cli_main_served_witness:
  "\<exists>args c c0 c1. numeratorcli_main ref_boost tape_protocol (\<lambda>h p. Inr (ping_reply, []))
       (\<lambda>f. Some (open_stream [])) (\<lambda>n. True) 0 [(CHR ''t'', ''s2i''), (CHR ''d'', ''words'')] = ([], Served c) \<and>
     parse_cmd_line_args ref_boost [(CHR ''t'', ''s2i''), (CHR ''d'', ''words'')] = Go args \<and>
     NumeratorClient_ping tape_protocol c0 = Some (Inr ((), c1))"
proof -
  let ?args = "cli_args_default\<lparr>qtype := ''s2i'', data_file := ''words''\<rparr>"
  have "split_host_port ref_boost ?args = Go (''127.0.0.1'', 9090)"
    by (rule split_host_port_address [OF ref_boost_ok])
       (simp_all add: cli_args_default_def print_int_def print_nat.simps digit_def)
  moreover have "parse_cmd_line_args ref_boost [(CHR ''t'', ''s2i''), (CHR ''d'', ''words'')] = Go ?args"
    by (simp add: parse_cmd_line_args_def cli_args_default_def)
  moreover obtain c1 where "NumeratorClient_ping tape_protocol (ping_reply, []) = Some (Inr ((), c1))"
    using ping_answered by blast
  ultimately obtain c where c: "numeratorcli_main ref_boost tape_protocol (\<lambda>h p. Inr (ping_reply, []))
       (\<lambda>f. Some (open_stream [])) (\<lambda>n. True) 0 [(CHR ''t'', ''s2i''), (CHR ''d'', ''words'')] = ([], Served c)"
    by (simp add: numeratorcli_main_def run_cli_def run_loop_empty run_end_def)
  show ?thesis
    using cli_main_served [OF c] c by (elim exE conjE) (intro exI conjI, assumption+)
qed

end
