(* ===== verification/End_To_End.thy ===== *)
theory End_To_End
  imports Cli Rpc_Server
begin

text \<open>
  The command line client against the server: numeratorcli.cpp on one side of the wire, the
  handler of numerator.cpp on the other.
\<close>

section \<open>A client whose other side is a server\<close>

text \<open>
  \<open>query\<close> of a client that is connected to the server \<open>I\<close>: the state that the client changes is
  the server's, and the result is what arrives of the handler's outcome.
\<close>

definition served_client :: "(exc \<Rightarrow> string) \<Rightarrow> 'h iface \<Rightarrow> 'h client_query" where
  "served_client what I ret request h =
     (case iface_query I Query_new (query_marked request) h of
        (out, h') \<Rightarrow> map_option (map_sum id (\<lambda>r. (r, h'))) (wire_outcome what out))"

text \<open>That is what an exchange over the wire amounts to.\<close>

lemma served_client_wire:
  assumes "protocol_ok P" and "protocol_no_error P" and "query_fits request"
    and "wire_query P what I ret request h res h'"
    and "iface_query I Query_new (query_marked request) h = (out, h1)"
    and "\<And>resp. out = Returned resp \<Longrightarrow> query_fits resp"
  shows "served_client what I ret request h = Some (map_sum id (\<lambda>r. (r, h')) res)"
  using wire_query_outcome [OF assms] assms(5) by (simp add: served_client_def)

abbreviation numerator_client ::
  "(exc \<Rightarrow> string) \<Rightarrow> 'j judy \<Rightarrow> 'db leveldb \<Rightarrow> num_id \<Rightarrow> ('j, 'db) server client_query" where
  "numerator_client what J L junk \<equiv> served_client what (numerator_iface J L junk)"

section \<open>Strings to ids\<close>

lemma s2i_loop_counter:
  assumes "s2i_loop (ms_find J) ss kvs ids c m = (Inr r, c', m')"
  shows "sint c' \<le> sint c + int (length ss)"
  using assms
proof (induction ss arbitrary: kvs ids c m)
  case Nil
  then show ?case by simp
next
  case (Cons s ss)
  obtain ins i c1 m1 where f: "ms_find J s c m = (Inr (ins, i), c1, m1)"
    using Cons.prems by (auto split: prod.splits sum.splits)
  then have "c1 = c \<or> c \<noteq> max_num_id \<and> c1 = c + 1"
    by (auto simp: ms_find_def split: prod.splits if_splits judy_ptr.splits)
  then have "sint c1 \<le> sint c + 1" using sint_num_id_plus_1 [of c] by auto
  with Cons.IH [of _ _ c1 m1] Cons.prems f show ?case by fastforce
qed

lemma s2i_query_counter:
  assumes "q_op q = STR2ID" and "NumeratorHandler_query J L Query_new q h = (Returned r, h')"
  shows "sint (cnt h') \<le> sint (cnt h) + int (length (q_strings q))"
proof -
  have "query_impl (ms_find J) (ds_write L) (ds_lookup L) Query_new q h = (Returned r, h')"
    using query_answered [OF assms(2)] by simp
  with assms(1) show ?thesis
    using s2i_loop_counter by (auto simp: query_impl_def Let_def split: prod.splits sum.splits if_splits elim: raise.elims)
qed

text \<open>What a run of requests keeps, and what the next ones rely on.\<close>

definition ready :: "'j judy \<Rightarrow> 'db leveldb \<Rightarrow> ('j, 'db) server \<Rightarrow> bool" where
  "ready J L h \<longleftrightarrow> server_inv J L h \<and> \<not> disable_s2i_queries h \<and> nul_free_table (srv_tab L h)"

lemma s2i_request:
  assumes "libs_ok J L" and "libs_no_error J L" and "ready J L h"
    and "\<forall>s \<in> set ls. nul_free s" and "sint (cnt h) + int (length ls) < 2 ^ 63"
  shows "\<exists>ids h'. do_query (numerator_client what J L junk) STR2ID [] ls h =
             (concat (map (\<lambda>i. print_id i @ [newline]) ids), Done h') \<and>
           ready J L h' \<and> sint (cnt h') \<le> sint (cnt h) + int (length ls) \<and>
           map (\<lambda>s. srv_view J h' (cstr s)) ls = map Some ids \<and> srv_view J h \<subseteq>\<^sub>m srv_view J h'"
proof -
  let ?q = "Query_new\<lparr>q_op := STR2ID, q_strings := ls\<rparr>"
  have inv: "server_inv J L h" "\<not> disable_s2i_queries h" "nul_free_table (srv_tab L h)"
    using assms(3) by (simp_all add: ready_def)
  then have "ds_wf L (disk_storage h)" by (simp add: server_inv_def)
  then obtain resp h' where impl: "query_impl (ms_find J) (ds_write L) (ds_lookup L) Query_new ?q h = (Returned resp, h')"
    using s2i_query_returns [OF assms(2) _ inv(2), of ?q Query_new] assms(5) by auto
  then have r: "NumeratorHandler_query J L Query_new ?q h = (Returned resp, h')"
    by (simp add: NumeratorHandler_query_def query_catch_def)
  from svc.s2i_step [OF libs_okD(1,2) [OF assms(1)] server_inv_coherent [OF inv(1,2)] inv(2) _ impl]
  have s: "length (q_ids resp) = length ls"
    "\<forall>j < length ls. srv_view J h' (cstr (ls ! j)) = Some (q_ids resp ! j)"
    "srv_view J h \<subseteq>\<^sub>m srv_view J h'" "\<not> disable_s2i_queries h'"
    "\<forall>s \<in> ran (srv_tab L h'). s \<in> ran (srv_tab L h) \<or> s \<in> set ls"
    by (auto simp: Query_new_def)
  have "server_inv J L h'"
    using serve_inv [OF assms(1) inv(1), of "ReqQuery ?q" "RepQuery (Returned resp)" h'] r by simp
  with s(4,5) inv(3) assms(4) have "ready J L h'" by (auto simp: ready_def nul_free_table_def)
  moreover have "map (\<lambda>s. srv_view J h' (cstr s)) ls = map Some (q_ids resp)"
    by (rule nth_equalityI) (use s(1,2) in simp_all)
  moreover have "sint (cnt h') \<le> sint (cnt h) + int (length ls)" using s2i_query_counter [OF _ r] by simp
  moreover have "Query_new\<lparr>q_op := STR2ID, q_strings := ls, q_ids := []\<rparr> = ?q" by (simp add: Query_new_def)
  then have "do_query (numerator_client what J L junk) STR2ID [] ls h =
      (concat (map (\<lambda>i. print_id i @ [newline]) (q_ids resp)), Done h')"
    using r by (simp add: do_query_def served_client_def)
  ultimately show ?thesis using s(3) by blast
qed

lemma s2i_requests:
  assumes "libs_ok J L" and "libs_no_error J L" and "ready J L h"
    and "\<forall>s \<in> set (concat lss). nul_free s" and "sint (cnt h) + int (length (concat lss)) < 2 ^ 63"
  shows "\<exists>ids h'. ask_all B (numerator_client what J L junk) STR2ID lss h =
             (file_text (map print_id ids), Done h') \<and>
           ready J L h' \<and> map (\<lambda>s. srv_view J h' (cstr s)) (concat lss) = map Some ids \<and>
           srv_view J h \<subseteq>\<^sub>m srv_view J h'"
  using assms(3-5)
proof (induction lss arbitrary: h)
  case Nil
  then show ?case by (auto simp: file_text_def)
next
  case (Cons ls lss)
  obtain ids h1 where h1: "do_query (numerator_client what J L junk) STR2ID [] ls h =
      (concat (map (\<lambda>i. print_id i @ [newline]) ids), Done h1)" "ready J L h1"
    "sint (cnt h1) \<le> sint (cnt h) + int (length ls)"
    "map (\<lambda>s. srv_view J h1 (cstr s)) ls = map Some ids" "srv_view J h \<subseteq>\<^sub>m srv_view J h1"
    using s2i_request [OF assms(1,2) Cons.prems(1), of ls what junk] Cons.prems(2,3) by auto
  obtain ids' h2 where h2: "ask_all B (numerator_client what J L junk) STR2ID lss h1 =
      (file_text (map print_id ids'), Done h2)" "ready J L h2"
    "map (\<lambda>s. srv_view J h2 (cstr s)) (concat lss) = map Some ids'" "srv_view J h1 \<subseteq>\<^sub>m srv_view J h2"
    using Cons.IH [OF h1(2)] Cons.prems(2,3) h1(3) by auto
  have "srv_view J h2 (cstr s) = srv_view J h1 (cstr s)" if "s \<in> set ls" for s
  proof -
    have "srv_view J h1 (cstr s) \<in> set (map Some ids)" using that unfolding h1(4) [symmetric] by auto
    with h2(4) show ?thesis by (auto simp: map_le_def dom_def)
  qed
  then have "map (\<lambda>s. srv_view J h2 (cstr s)) ls = map Some ids"
    unfolding h1(4) [symmetric] by simp
  with h1 h2 show ?case
    by (intro exI [of _ "ids @ ids'"] exI [of _ h2])
       (auto simp: line_ids_def line_strings_def and_then_def file_text_def comp_def intro: map_le_trans)
qed

section \<open>Ids to strings\<close>

lemma print_strings_all:
  "n + length ss < 2 ^ 31 \<Longrightarrow> print_strings {} (of_nat n) ss = (file_text ss, Done ())"
proof (induction ss arbitrary: n)
  case Nil
  then show ?case by (simp add: file_text_def)
next
  case (Cons s ss)
  have "of_nat n \<noteq> max_failure_idx"
  proof
    assume eq: "of_nat n = max_failure_idx"
    have "unat (of_nat n :: failure_idx) = n"
      using Cons.prems by (simp add: unsigned_of_nat take_bit_nat_eq_self)
    with eq Cons.prems show False by (simp add: max_failure_idx_def)
  qed
  moreover have "print_strings {} (of_nat n + 1) ss = (file_text ss, Done ())"
    using Cons.IH [of "Suc n"] Cons.prems by (simp add: add.commute)
  ultimately show ?case by (simp add: file_text_def)
qed

lemma i2s_request:
  assumes "libs_ok J L" and "libs_no_error J L" and "ds_wf L (disk_storage h)"
    and "map (srv_tab L h) ids = map Some ss" and "length ids < 2 ^ 31"
  shows "do_query (numerator_client what J L junk) ID2STR ids [] h = (file_text ss, Done h)"
proof -
  let ?q = "Query_new\<lparr>q_op := ID2STR, q_ids := ids\<rparr>"
  have len: "length ss = length ids" using map_eq_imp_length_eq [OF assms(4)] by simp
  have at: "srv_tab L h (ids ! k) = Some (ss ! k)" if "k < length ids" for k
    using arg_cong [OF assms(4), of "\<lambda>xs. xs ! k"] that len by simp
  have "lookup_values (srv_tab L h) ids = ss"
    by (rule nth_equalityI) (use at len in \<open>simp_all add: lookup_values_def\<close>)
  moreover have "lookup_failures (srv_tab L h) 0 ids = []"
    using at by (auto simp: lookup_failures_def filter_empty_conv)
  ultimately have r: "NumeratorHandler_query J L Query_new ?q h =
      (Returned (Query_new\<lparr>q_op := ID2STR, q_strings := ss\<rparr>), h)"
    using i2s_query_returns [OF assms(1,2,3), of ?q] assms(5) by (simp add: Query_new_def)
  have "Query_new\<lparr>q_op := ID2STR, q_strings := [], q_ids := ids\<rparr> = ?q" by (simp add: Query_new_def)
  with r print_strings_all [of 0 ss] len assms(5) show ?thesis
    by (simp add: do_query_def served_client_def Query_new_def)
qed

lemma i2s_requests:
  assumes "boost_ok B" and "libs_ok J L" and "libs_no_error J L" and "ds_wf L (disk_storage h)"
    and "map (srv_tab L h) (concat idss) = map Some ss" and "\<forall>ids \<in> set idss. length ids < 2 ^ 31"
  shows "ask_all B (numerator_client what J L junk) ID2STR (map (map print_id) idss) h = (file_text ss, Done h)"
  using assms(5,6)
proof (induction idss arbitrary: ss)
  case Nil
  then show ?case by (simp add: file_text_def)
next
  case (Cons ids idss)
  let ?n = "length ids"
  have "?n \<le> length ss" using map_eq_imp_length_eq [OF Cons.prems(1)] by simp
  then have "map (srv_tab L h) ids = map Some (take ?n ss)" "map (srv_tab L h) (concat idss) = map Some (drop ?n ss)"
    using Cons.prems(1) by (simp_all add: append_eq_conv_conj take_map drop_map min_def)
  moreover have "line_ids B ID2STR (map print_id ids) = ids"
    by (simp add: line_ids_def comp_def lexical_cast_print [OF assms(1)])
  moreover have "file_text (take ?n ss) @ file_text (drop ?n ss) = file_text ss"
    by (simp add: file_text_def flip: concat_append map_append)
  ultimately show ?case
    using i2s_request [OF assms(2-4), of ids "take ?n ss" what junk] Cons.IH Cons.prems(2)
    by (simp add: line_strings_def and_then_def)
qed

section \<open>Whole runs\<close>

lemma chunks_map: "chunks n (map f xs) = map (map f) (chunks n xs)"
proof (induction n xs rule: chunks.induct)
  case (1 n xs)
  then show ?case by (cases "xs = [] \<or> n = 0") (auto simp: chunks.simps [of n] take_map drop_map)
qed

text \<open>A run over a file of lines, as the requests it makes.\<close>

lemma run_cli_batches:
  assumes "batch_size args \<noteq> 0" and "can_reserve (batch_size args)" and "\<forall>l \<in> set ls. newline \<notin> set l"
    and "open_file (cstr (data_file args)) = Some (open_stream (file_text ls))"
    and "qtype args = ''s2i'' \<and> op = STR2ID \<or>
         qtype args = ''i2s'' \<and> op = ID2STR \<and> (\<forall>l \<in> set ls. \<exists>i. lexical_cast_i64 B l = Inr i)"
  shows "run_cli B client open_file can_reserve 0 args c =
           ask_all B client op (chunks (unat (batch_size args)) ls) c"
proof -
  have "run_loop B client op (batch_size args) (open_stream (file_text ls)) (of_nat (length ([] :: string list)))
      (line_ids B op []) (line_strings op []) c = ask_all B client op (chunks (unat (batch_size args)) ([] @ ls)) c"
    by (rule run_loop_batches)
       (use assms in \<open>auto simp: unat_gt_0 open_stream_def good_def\<close>)
  then show ?thesis using assms(2,4,5) by (auto simp: run_cli_def)
qed

text \<open>On a good server the ids of a run name the strings that were asked for.\<close>

lemma ready_table:
  assumes "ready J L h" and "\<forall>l \<in> set ls. nul_free l" and "map (\<lambda>s. srv_view J h (cstr s)) ls = map Some ids"
  shows "map (srv_tab L h) ids = map Some ls"
proof (rule nth_equalityI)
  have inv: "server_inv J L h" "\<not> disable_s2i_queries h" "nul_free_table (srv_tab L h)"
    using assms(1) by (simp_all add: ready_def)
  have len: "length ids = length ls" using map_eq_imp_length_eq [OF assms(3)] by simp
  then show "length (map (srv_tab L h) ids) = length (map Some ls)" by simp
  fix j
  assume "j < length (map (srv_tab L h) ids)"
  then have j: "j < length ls" using len by simp
  have "srv_view J h (cstr (ls ! j)) = Some (ids ! j)"
    using arg_cong [OF assms(3), of "\<lambda>xs. xs ! j"] j len by simp
  then obtain s where s: "srv_tab L h (ids ! j) = Some s" "cstr s = cstr (ls ! j)"
    using coherentD(1) [OF server_inv_coherent [OF inv(1,2)]] by blast
  have "s = ls ! j" by (rule cstr_table_eq [OF inv(3) s(1) _ s(2)]) (use assms(2) j in simp)
  with s j len show "map (srv_tab L h) ids ! j = map Some ls ! j" by simp
qed

section \<open>Properties\<close>

text \<open>
  C4. Two runs of the command line client are inverse to each other, over every layer between
  the two files.  A run that asks a good server for the ids of the lines of a file ends as a
  success and prints one line per line; a run that asks for the strings of what the first one
  printed, with a batch size of its own, and from this server or any server whose database has
  at least its entries, prints exactly the first file and changes nothing.  (The index library
  and the database keep their contracts and report no errors, ids do not run out, no line has a
  NUL, and the uninitialised counter starts at 0.)
\<close>

theorem cli_roundtrip:
  assumes "boost_ok B" and "libs_ok J L" and "libs_no_error J L" and "ready J L h"
    and "\<forall>l \<in> set ls. newline \<notin> set l \<and> nul_free l" and "sint (cnt h) + int (length ls) < 2 ^ 63"
    and "qtype args1 = ''s2i''" and "batch_size args1 \<noteq> 0" and "can_reserve (batch_size args1)"
    and "qtype args2 = ''i2s''" and "batch_size args2 \<noteq> 0" and "can_reserve (batch_size args2)"
    and "unat (batch_size args2) < 2 ^ 31"
    and "file1 (cstr (data_file args1)) = Some (open_stream (file_text ls))"
  shows "\<exists>out h1.
    run_cli B (numerator_client what J L junk) file1 can_reserve 0 args1 h = (out, Done h1) \<and> ready J L h1 \<and>
    (\<forall>file2 h2. file2 (cstr (data_file args2)) = Some (open_stream out) \<and> ds_wf L (disk_storage h2) \<and>
       srv_tab L h1 \<subseteq>\<^sub>m srv_tab L h2 \<longrightarrow>
       run_cli B (numerator_client what J L junk) file2 can_reserve 0 args2 h2 = (file_text ls, Done h2))"
proof -
  let ?n1 = "unat (batch_size args1)" and ?n2 = "unat (batch_size args2)"
  let ?client = "numerator_client what J L junk"
  have n: "?n1 \<noteq> 0" "?n2 \<noteq> 0" using assms(8,11) by (simp_all add: unat_eq_0)
  have nul: "\<forall>l \<in> set ls. nul_free l" using assms(5) by simp
  obtain ids h1 where h1: "ask_all B ?client STR2ID (chunks ?n1 ls) h = (file_text (map print_id ids), Done h1)"
    "ready J L h1" "map (\<lambda>s. srv_view J h1 (cstr s)) ls = map Some ids"
    using s2i_requests [OF assms(2-4), of "chunks ?n1 ls" B what junk] nul assms(6)
    unfolding concat_chunks [OF n(1)] by blast
  have "run_cli B ?client file1 can_reserve 0 args1 h = (file_text (map print_id ids), Done h1)"
    unfolding h1(1) [symmetric] by (rule run_cli_batches) (use assms in auto)
  moreover have "run_cli B ?client file2 can_reserve 0 args2 h2 = (file_text ls, Done h2)"
    if file2: "file2 (cstr (data_file args2)) = Some (open_stream (file_text (map print_id ids)))"
      and wf: "ds_wf L (disk_storage h2)" and le: "srv_tab L h1 \<subseteq>\<^sub>m srv_tab L h2" for file2 h2
  proof -
    have "srv_tab L h2 i = srv_tab L h1 i" if "i \<in> set ids" for i
    proof -
      have "srv_tab L h1 i \<in> set (map Some ls)"
        using that unfolding ready_table [OF h1(2) nul h1(3), symmetric] by simp
      with le show ?thesis by (auto simp: map_le_def dom_def)
    qed
    then have "map (srv_tab L h2) (concat (chunks ?n2 ids)) = map Some ls"
      unfolding concat_chunks [OF n(2)] ready_table [OF h1(2) nul h1(3), symmetric] by simp
    moreover have "\<forall>b \<in> set (chunks ?n2 ids). length b < 2 ^ 31"
      using chunks_size [of _ ?n2 ids] assms(13) by fastforce
    ultimately have "ask_all B ?client ID2STR (map (map print_id) (chunks ?n2 ids)) h2 = (file_text ls, Done h2)"
      by (rule i2s_requests [OF assms(1-3) wf])
    moreover have "run_cli B ?client file2 can_reserve 0 args2 h2 =
        ask_all B ?client ID2STR (chunks ?n2 (map print_id ids)) h2"
      by (rule run_cli_batches)
         (use assms file2 in \<open>auto simp: newline_def lexical_cast_print [OF assms(1)]\<close>)
    ultimately show ?thesis unfolding chunks_map by simp
  qed
  ultimately show ?thesis using h1(2) by blast
qed

text \<open>Two words through an empty server: the client prints their ids, and back.\<close>

theorem cli_roundtrip_witness:
  "\<exists>out h1.
     run_cli ref_boost (numerator_client (\<lambda>x. []) alist_judy alist_db 0)
       (\<lambda>f. Some (open_stream (file_text [''A'', ''B'']))) (\<lambda>n. True) 0 demo_args empty_server = (out, Done h1) \<and>
     run_cli ref_boost (numerator_client (\<lambda>x. []) alist_judy alist_db 0)
       (\<lambda>f. Some (open_stream out)) (\<lambda>n. True) 0 (demo_args\<lparr>qtype := ''i2s''\<rparr>) h1 = (file_text [''A'', ''B''], Done h1)"
proof -
  have "ready alist_judy alist_db empty_server"
    using empty_server_inv by (simp add: ready_def nul_free_table_def)
  moreover have "sint (cnt empty_server) + int (length [''A'', ''B'']) < 2 ^ 63"
    by (simp add: empty_server_def)
  ultimately obtain out h1 where r:
    "run_cli ref_boost (numerator_client (\<lambda>x. []) alist_judy alist_db 0)
       (\<lambda>f. Some (open_stream (file_text [''A'', ''B'']))) (\<lambda>n. True) 0 demo_args empty_server = (out, Done h1)"
    "ready alist_judy alist_db h1"
    "\<And>file2 h2. file2 (cstr (data_file demo_args)) = Some (open_stream out) \<Longrightarrow> ds_wf alist_db (disk_storage h2) \<Longrightarrow>
       srv_tab alist_db h1 \<subseteq>\<^sub>m srv_tab alist_db h2 \<Longrightarrow>
       run_cli ref_boost (numerator_client (\<lambda>x. []) alist_judy alist_db 0) file2 (\<lambda>n. True) 0
         (demo_args\<lparr>qtype := ''i2s''\<rparr>) h2 = (file_text [''A'', ''B''], Done h2)"
    using cli_roundtrip [OF ref_boost_ok libs_ok_alist, of empty_server "[''A'', ''B'']" demo_args "\<lambda>n. True"
        "demo_args\<lparr>qtype := ''i2s''\<rparr>" "\<lambda>f. Some (open_stream (file_text [''A'', ''B'']))" "\<lambda>x. []" 0]
    by (auto simp: demo_args_def newline_def nul_free_def)
  have "ds_wf alist_db (disk_storage h1)" using r(2) by (simp add: ready_def server_inv_def)
  with r show ?thesis by auto
qed

end
