(* ===== verification/Lifetimes.thy ===== *)
theory Lifetimes
  imports Dump_Restore Memory_Storage
begin

text \<open>
  disk\_storage.hpp and memory\_storage.hpp: construction and destruction.  In Disk\_Storage an
  object holds its database, cache and filter as values; here it holds them as the pointers
  that they are in the code, into a heap where they can be freed twice or leaked.
\<close>

section \<open>The heap of the database library\<close>

text \<open>
  What \<open>NewLRUCache\<close>, \<open>NewBloomFilterPolicy\<close> and \<open>DB::Open\<close> allocate.  A database keeps the
  cache and the filter that it was opened with and goes on using them.
\<close>

datatype 'db block =
    CacheBlock "64 word"
  | FilterBlock int
  | DbBlock 'db (db_cache: "nat option") (db_filter: "nat option")

text \<open>An address is a position; it is not used again after its block was freed (\<open>None\<close>).\<close>

type_synonym 'db heap = "'db block option list"

definition alloc :: "'db block \<Rightarrow> 'db heap \<Rightarrow> nat \<times> 'db heap" where
  "alloc b H = (length H, H @ [Some b])"

definition block_at :: "'db heap \<Rightarrow> nat option \<Rightarrow> 'db block option" where
  "block_at H p = (case p of None \<Rightarrow> None | Some a \<Rightarrow> if a < length H then H ! a else None)"

fun uses :: "nat \<Rightarrow> 'db block option \<Rightarrow> bool" where
  "uses a (Some (DbBlock d c f)) \<longleftrightarrow> c = Some a \<or> f = Some a"
| "uses a _ \<longleftrightarrow> False"

text \<open>
  \<open>delete\<close>: nothing for the null pointer; deleting twice is undefined, and so is deleting a
  cache or a filter before the database that uses it.
\<close>

datatype fault = DeletedTwice | DeletedInUse

definition delete_ptr :: "nat option \<Rightarrow> 'db heap \<Rightarrow> fault + 'db heap" where
  "delete_ptr p H =
     (case p of
        None \<Rightarrow> Inr H
      | Some a \<Rightarrow>
          if block_at H p = None then Inl DeletedTwice
          else if list_ex (uses a) H then Inl DeletedInUse
          else Inr (H[a := None]))"

section \<open>DiskStorage\<close>

record ds_object =
  o_db :: "nat option"
  o_cache_size :: "32 word"
  o_create_if_missing :: bool
  o_block_cache :: "nat option"
  o_filter_policy :: "nat option"

definition DiskStorage_new :: ds_object where
  "DiskStorage_new = \<lparr>o_db = None, o_cache_size = 0, o_create_if_missing = False,
     o_block_cache = None, o_filter_policy = None\<rparr>"

text \<open>The object that Disk\_Storage speaks about: every pointer followed.\<close>

definition view_options :: "'db heap \<Rightarrow> ds_object \<Rightarrow> ldb_options" where
  "view_options H this =
     \<lparr>create_if_missing = o_create_if_missing this,
      block_cache = (case block_at H (o_block_cache this) of Some (CacheBlock n) \<Rightarrow> Some n | _ \<Rightarrow> None),
      filter_policy = (case block_at H (o_filter_policy this) of Some (FilterBlock n) \<Rightarrow> Some n | _ \<Rightarrow> None)\<rparr>"

definition view_object :: "'db heap \<Rightarrow> ds_object \<Rightarrow> 'db disk_storage" where
  "view_object H this =
     \<lparr>db = (case block_at H (o_db this) of Some (DbBlock d c f) \<Rightarrow> Some d | _ \<Rightarrow> None),
      cache_size = o_cache_size this, options = view_options H this\<rparr>"

definition DiskStorage_init ::
  "'db leveldb \<Rightarrow> string \<Rightarrow> 32 word \<Rightarrow> ds_object \<Rightarrow> 'db heap \<Rightarrow> (error + unit) \<times> ds_object \<times> 'db heap" where
  "DiskStorage_init L path cache this H =
     (let this = this\<lparr>o_cache_size := cache, o_create_if_missing := True\<rparr> in
      if 0 < sint cache \<and> 2 ^ 31 \<le> 1024 * 1024 * sint cache then (Inl (UB SignedOverflow), this, H)
      else
        let (this, H) =
              (if 0 < sint cache
               then (case alloc (CacheBlock (of_int (1024 * 1024 * sint cache))) H of
                       (a, H) \<Rightarrow> (this\<lparr>o_block_cache := Some a\<rparr>, H))
               else (this, H));
            (a, H) = alloc (FilterBlock kBloomFilterBits) H;
            this = this\<lparr>o_filter_policy := Some a\<rparr>
        in
          case ldb_Open L (view_options H this) path of (status, d) \<Rightarrow>
            (if status = StOk then Inr () else Inl (Exc (InitFailed (status_text status))),
             case d of
               None \<Rightarrow> (this\<lparr>o_db := None\<rparr>, H)
             | Some d \<Rightarrow>
                 (case alloc (DbBlock d (o_block_cache this) (o_filter_policy this)) H of
                    (a, H) \<Rightarrow> (this\<lparr>o_db := Some a\<rparr>, H))))"

definition DiskStorage_destroy :: "ds_object \<Rightarrow> 'db heap \<Rightarrow> fault + 'db heap" where
  "DiskStorage_destroy this H =
     (case delete_ptr (o_db this) H of
        Inl e \<Rightarrow> Inl e
      | Inr H \<Rightarrow>
          (case delete_ptr (o_block_cache this) H of
             Inl e \<Rightarrow> Inl e
           | Inr H \<Rightarrow> delete_ptr (o_filter_policy this) H))"

text \<open>
  A method of Disk\_Storage and Dump\_Restore, called on such an object: it changes the contents
  of the database and no pointer.
\<close>

fun set_contents :: "'db option \<Rightarrow> 'db block option \<Rightarrow> 'db block option" where
  "set_contents (Some d') (Some (DbBlock d c f)) = Some (DbBlock d' c f)"
| "set_contents _ b = b"

definition on_object ::
  "('db disk_storage \<Rightarrow> 'r \<times> 'db disk_storage) \<Rightarrow> ds_object \<Rightarrow> 'db heap \<Rightarrow> 'r \<times> 'db heap" where
  "on_object f this H =
     (case f (view_object H this) of
        (r, ds) \<Rightarrow>
          (r, case o_db this of
                None \<Rightarrow> H
              | Some a \<Rightarrow> if a < length H then H[a := set_contents (db ds) (H ! a)] else H))"

section \<open>MemoryStorage\<close>

definition MemoryStorage_destroy :: "'j judy \<Rightarrow> 'j memory_storage \<Rightarrow> 'j memory_storage" where
  "MemoryStorage_destroy J m = ms_unload J m"

lemma destroyed_index_empty [simp]: "ms_empty J (MemoryStorage_destroy J m)"
  by (simp add: MemoryStorage_destroy_def ms_unload_def ms_empty_def)

section \<open>What an object owns\<close>

text \<open>The blocks behind \<open>H\<close> that \<open>init\<close> leaves, for a cache of \<open>cap\<close> bytes or none.\<close>

definition owned :: "nat \<Rightarrow> 64 word option \<Rightarrow> 'db option \<Rightarrow> 'db heap" where
  "owned n cap d =
     (let c = (case cap of None \<Rightarrow> [] | Some k \<Rightarrow> [Some (CacheBlock k)]);
          p = map_option (\<lambda>_. n) cap; q = n + length c
      in c @ [Some (FilterBlock kBloomFilterBits)] @
         (case d of None \<Rightarrow> [] | Some d \<Rightarrow> [Some (DbBlock d p (Some q))]))"

definition owner :: "nat \<Rightarrow> 32 word \<Rightarrow> 64 word option \<Rightarrow> 'db option \<Rightarrow> ds_object" where
  "owner n cache cap d =
     (let q = (case cap of None \<Rightarrow> n | Some _ \<Rightarrow> Suc n) in
      \<lparr>o_db = map_option (\<lambda>_. Suc q) d, o_cache_size = cache, o_create_if_missing = True,
       o_block_cache = map_option (\<lambda>_. n) cap, o_filter_policy = Some q\<rparr>)"

text \<open>No database of the heap uses a block that is not there yet.\<close>

definition closed_heap :: "'db heap \<Rightarrow> bool" where
  "closed_heap H \<longleftrightarrow> (\<forall>b \<in> set H. \<forall>a. uses a b \<longrightarrow> a < length H)"

lemma closed_not_used: "closed_heap H \<Longrightarrow> length H \<le> a \<Longrightarrow> \<not> list_ex (uses a) H"
  by (force simp: closed_heap_def list_ex_iff)

definition viewed :: "32 word \<Rightarrow> 64 word option \<Rightarrow> 'db option \<Rightarrow> 'db disk_storage" where
  "viewed cache cap d =
     \<lparr>db = d, cache_size = cache,
      options = \<lparr>create_if_missing = True, block_cache = cap, filter_policy = Some kBloomFilterBits\<rparr>\<rparr>"

lemmas heap_simps = block_at_def owned_def owner_def nth_append list_update_append Let_def

lemma owned_view:
  "view_object (H @ owned (length H) cap d) (owner (length H) cache cap d) = viewed cache cap d"
  by (cases cap; cases d) (simp_all add: view_object_def view_options_def viewed_def heap_simps)

lemma owned_destroyed:
  assumes "closed_heap H"
  shows "DiskStorage_destroy (owner (length H) cache cap d) (H @ owned (length H) cap d) =
           Inr (H @ replicate (length (owned (length H) cap d)) None)"
  using closed_not_used [OF assms, of "length H"] closed_not_used [OF assms, of "Suc (length H)"]
    closed_not_used [OF assms, of "Suc (Suc (length H))"]
  by (cases cap; cases d) (simp_all add: DiskStorage_destroy_def delete_ptr_def heap_simps)

text \<open>A method of an object whose \<open>init\<close> is done.\<close>

definition kept :: "'db option \<Rightarrow> 'db option \<Rightarrow> 'db option" where
  "kept d d' = (if d = None \<or> d' = None then d else d')"

lemma owned_method:
  "on_object f (owner (length H) cache cap d) (H @ owned (length H) cap d) =
     (case f (viewed cache cap d) of (r, ds) \<Rightarrow> (r, H @ owned (length H) cap (kept d (db ds))))"
proof -
  obtain r ds where f: "f (viewed cache cap d) = (r, ds)" by (cases "f (viewed cache cap d)")
  show ?thesis
    unfolding on_object_def owned_view f
    by (cases cap; cases d; cases "db ds") (simp_all add: kept_def heap_simps)
qed

section \<open>A whole life\<close>

definition calls :: "('db disk_storage \<Rightarrow> 'r \<times> 'db disk_storage) list \<Rightarrow> ds_object \<Rightarrow> 'db heap \<Rightarrow> 'db heap" where
  "calls fs this H = foldl (\<lambda>H f. snd (on_object f this H)) H fs"

text \<open>What every method keeps: only the contents of the database change.\<close>

definition keeps_pointers :: "('db disk_storage \<Rightarrow> 'r \<times> 'db disk_storage) \<Rightarrow> bool" where
  "keeps_pointers f \<longleftrightarrow>
     (\<forall>ds. let ds' = snd (f ds) in
        cache_size ds' = cache_size ds \<and> options ds' = options ds \<and> (db ds' = None \<longleftrightarrow> db ds = None))"

lemma write_keeps_pointers: "keeps_pointers (\<lambda>ds. ds_write L ds kvs)"
  by (auto simp: keeps_pointers_def ds_write_def Let_def split: option.split prod.split)

lemma reading_keeps_pointers: "keeps_pointers (\<lambda>ds. (f ds, ds))"
  by (simp add: keeps_pointers_def)

lemma keeps_pointersD:
  assumes "keeps_pointers f"
  shows "snd (f ds) = ds\<lparr>db := kept (db ds) (db (snd (f ds)))\<rparr>"
proof -
  have "db (snd (f ds)) = kept (db ds) (db (snd (f ds)))"
    using assms by (auto simp: keeps_pointers_def kept_def Let_def)
  with assms show ?thesis
    by (intro disk_storage.equality) (auto simp: keeps_pointers_def Let_def)
qed

text \<open>An object whose database is the null pointer.\<close>

lemma null_method:
  assumes "o_db this = None"
  shows "snd (on_object f this H) = H"
  using assms by (simp add: on_object_def split_def)

lemma null_calls: "o_db this = None \<Longrightarrow> calls fs this H = H"
  by (induction fs) (simp_all add: calls_def null_method)

lemma owned_calls:
  "\<exists>d'. calls fs (owner (length H) cache cap d) (H @ owned (length H) cap d) = H @ owned (length H) cap d' \<and>
        (d' = None \<longleftrightarrow> d = None) \<and>
        ((\<forall>f \<in> set fs. keeps_pointers f) \<longrightarrow> viewed cache cap d' = foldl (\<lambda>ds f. snd (f ds)) (viewed cache cap d) fs)"
proof (induction fs arbitrary: d)
  case Nil
  show ?case by (intro exI [of _ d]) (simp add: calls_def)
next
  case (Cons f fs)
  let ?d = "kept d (db (snd (f (viewed cache cap d))))"
  have null: "?d = None \<longleftrightarrow> d = None" by (auto simp: kept_def)
  then have "map_option (\<lambda>_. n) ?d = map_option (\<lambda>_. n) d" for n :: nat by (cases d; cases ?d) simp_all
  then have "owner (length H) cache cap ?d = owner (length H) cache cap d" by (simp add: owner_def)
  moreover have "snd (on_object f (owner (length H) cache cap d) (H @ owned (length H) cap d)) = H @ owned (length H) cap ?d"
    by (simp add: owned_method split_def)
  moreover have "keeps_pointers f \<Longrightarrow> snd (f (viewed cache cap d)) = viewed cache cap ?d"
    using keeps_pointersD [of f "viewed cache cap d"] by (simp add: viewed_def)
  ultimately show ?case using Cons.IH [of ?d] null by (auto simp: calls_def)
qed

lemma init_cases:
  obtains (overflow) "DiskStorage_init L path cache DiskStorage_new H =
      (Inl (UB SignedOverflow), DiskStorage_new\<lparr>o_cache_size := cache, o_create_if_missing := True\<rparr>, H)"
    "ds_init L path cache ds_new = (Inl (UB SignedOverflow),
       \<lparr>db = None, cache_size = cache,
        options = \<lparr>create_if_missing = True, block_cache = None, filter_policy = None\<rparr>\<rparr>)"
  | (opened) r cap d where "DiskStorage_init L path cache DiskStorage_new H =
      (r, owner (length H) cache cap d, H @ owned (length H) cap d)"
    "ds_init L path cache ds_new = (r, viewed cache cap d)"
proof (cases "0 < sint cache \<and> 2 ^ 31 \<le> 1024 * 1024 * sint cache")
  case True
  then show ?thesis by (intro overflow) (simp_all add: DiskStorage_init_def ds_init_def ds_new_def Let_def)
next
  case False
  let ?cap = "if 0 < sint cache then Some (of_int (1024 * 1024 * sint cache)) else None"
  let ?opts = "\<lparr>create_if_missing = True, block_cache = ?cap, filter_policy = Some kBloomFilterBits\<rparr>"
  obtain status d where o': "ldb_Open L ?opts path = (status, d)" by fastforce
  show ?thesis
    using False o'
    by (intro opened [of "if status = StOk then Inr () else Inl (Exc (InitFailed (status_text status)))" ?cap d])
       (auto simp: DiskStorage_init_def ds_init_def Let_def DiskStorage_new_def ds_new_def alloc_def
         view_options_def viewed_def heap_simps split: option.split)
qed

text \<open>A copy of an object has its pointers: destroying both deletes a block twice.\<close>

lemma destroyed_twice:
  assumes "closed_heap H" and "DiskStorage_init L path cache DiskStorage_new H = (Inr (), this, H1)"
    and "DiskStorage_destroy this H1 = Inr H2"
  shows "DiskStorage_destroy this H2 = Inl DeletedTwice"
proof (cases rule: init_cases [of L path cache H])
  case (opened r cap d)
  with assms(2) have obj: "this = owner (length H) cache cap d" "H1 = H @ owned (length H) cap d" by simp_all
  with assms(3) owned_destroyed [OF assms(1), of cache cap d]
  have "H2 = H @ replicate (length (owned (length H) cap d)) None" by simp
  with obj(1) show ?thesis
    by (cases cap; cases d) (simp_all add: DiskStorage_destroy_def delete_ptr_def heap_simps)
qed (use assms(2) in simp)

section \<open>Properties\<close>

text \<open>
  C28. The life of a \<open>DiskStorage\<close>.  Its \<open>init\<close>, whether it succeeds or throws, and any calls
  after it do on the heap what Disk\_Storage says of the values behind the pointers; when it is
  destroyed then, no block is deleted twice or while the database still uses it, exactly the
  blocks that \<open>init\<close> allocated are freed, and nothing else on the heap has changed.
\<close>

theorem disk_storage_lifetime:
  assumes "closed_heap H" and "DiskStorage_init L path cache DiskStorage_new H = (r, this, H1)"
  shows "ds_init L path cache ds_new = (r, view_object H1 this) \<and>
    ((\<forall>f \<in> set fs. keeps_pointers f) \<longrightarrow>
       view_object (calls fs this H1) this = foldl (\<lambda>ds f. snd (f ds)) (view_object H1 this) fs) \<and>
    DiskStorage_destroy this (calls fs this H1) = Inr (H @ replicate (length H1 - length H) None)"
proof (cases rule: init_cases [of L path cache H])
  case overflow
  with assms(2) have obj: "this = DiskStorage_new\<lparr>o_cache_size := cache, o_create_if_missing := True\<rparr>" "H1 = H"
    by simp_all
  then have null: "o_db this = None" by (simp add: DiskStorage_new_def)
  let ?ds = "view_object H1 this"
  have *: "snd (f ?ds) = ?ds" if "keeps_pointers f" for f :: "'a disk_storage \<Rightarrow> 'c \<times> 'a disk_storage"
    using keeps_pointersD [OF that, of ?ds] null by (simp add: view_object_def block_at_def kept_def)
  have "foldl (\<lambda>ds f. snd (f ds)) ?ds fs = ?ds" if "\<forall>f \<in> set fs. keeps_pointers f"
    using that
  proof (induction fs)
    case (Cons f fs)
    then have "snd (f ?ds) = ?ds" by (intro *) simp
    with Cons show ?case by simp
  qed simp
  with overflow assms(2) obj null_calls [OF null, of fs H1] show ?thesis
    by (simp add: view_object_def view_options_def block_at_def DiskStorage_new_def DiskStorage_destroy_def
        delete_ptr_def)
next
  case (opened r' cap d)
  with assms(2) have obj: "this = owner (length H) cache cap d" "H1 = H @ owned (length H) cap d" "r' = r" by simp_all
  obtain d' where d': "calls fs this H1 = H @ owned (length H) cap d'" "d' = None \<longleftrightarrow> d = None"
    "(\<forall>f \<in> set fs. keeps_pointers f) \<longrightarrow> viewed cache cap d' = foldl (\<lambda>ds f. snd (f ds)) (viewed cache cap d) fs"
    using owned_calls [of fs H cache cap d] unfolding obj by blast
  have "map_option (\<lambda>_. n) d' = map_option (\<lambda>_. n) d" for n :: nat using d'(2) by (cases d; cases d') simp_all
  then have o': "this = owner (length H) cache cap d'" unfolding obj(1) by (simp add: owner_def)
  have len: "length (owned (length H) cap d') = length (owned (length H) cap d)"
    using d'(2) by (cases d; cases d') (simp_all add: owned_def Let_def)
  have "view_object (calls fs this H1) this = viewed cache cap d'" unfolding d'(1) unfolding o' by (rule owned_view)
  moreover have "view_object H1 this = viewed cache cap d" unfolding obj by (rule owned_view)
  moreover have "DiskStorage_destroy this (calls fs this H1) = Inr (H @ replicate (length H1 - length H) None)"
    unfolding d'(1) using owned_destroyed [OF assms(1), of cache cap d'] len unfolding o' [symmetric] obj(2) by simp
  ultimately show ?thesis using opened(2) d'(3) obj(3) by simp
qed

text \<open>A cache of one megabyte, an entry written, and all three blocks are given back.\<close>

theorem disk_storage_lifetime_witness:
  "\<exists>this H1. DiskStorage_init alist_db ''dir'' 1 DiskStorage_new [] = (Inr (), this, H1) \<and>
     H1 = [Some (CacheBlock 1048576), Some (FilterBlock 10), Some (DbBlock [] (Some 0) (Some 1))] \<and>
     DiskStorage_destroy this (calls [\<lambda>ds. ds_write alist_db ds [(1, ''A'')]] this H1) = Inr [None, None, None]"
proof -
  have "closed_heap []" by (simp add: closed_heap_def)
  moreover obtain this H1 where i: "DiskStorage_init alist_db ''dir'' 1 DiskStorage_new [] = (Inr (), this, H1)"
    "H1 = [Some (CacheBlock 1048576), Some (FilterBlock 10), Some (DbBlock [] (Some 0) (Some 1))]"
    by (simp add: DiskStorage_init_def DiskStorage_new_def alist_db_def alloc_def kBloomFilterBits_def)
  ultimately show ?thesis
    using disk_storage_lifetime [OF _ i(1), of "[\<lambda>ds. ds_write alist_db ds [(1, ''A'')]]"]
    by (auto simp: numeral_3_eq_3)
qed

end
