(* ===== verification/Client_Objects.thy ===== *)
theory Client_Objects
  imports Concurrent_Client
begin

text \<open>
  gen-cpp/Numerator.h and Numerator.cpp: the client objects with the protocols they hold, and
  \<open>query\<close> with its parameters passed by reference.  Protocols and queries are objects in a
  store, so that two pointers may go to the same one.
\<close>

section \<open>The protocols of a client\<close>

type_synonym 'p protocols = "nat \<Rightarrow> 'p"

record client_object =
  piprot :: nat
  poprot :: nat
  iprot :: nat
  oprot :: nat

text \<open>\<open>c\<close> is the object before, whatever its members are.\<close>

definition NumeratorClient_setProtocol :: "nat \<Rightarrow> nat \<Rightarrow> client_object \<Rightarrow> client_object" where
  "NumeratorClient_setProtocol iprot' oprot' c =
     c\<lparr>piprot := iprot', poprot := oprot', iprot := iprot', oprot := oprot'\<rparr>"

definition NumeratorClient_setProtocol_one :: "nat \<Rightarrow> client_object \<Rightarrow> client_object" where
  "NumeratorClient_setProtocol_one prot c = NumeratorClient_setProtocol prot prot c"

definition NumeratorClient_new :: "client_object \<Rightarrow> nat \<Rightarrow> client_object" where
  "NumeratorClient_new c prot = NumeratorClient_setProtocol_one prot c"

definition NumeratorClient_new_two :: "client_object \<Rightarrow> nat \<Rightarrow> nat \<Rightarrow> client_object" where
  "NumeratorClient_new_two c iprot' oprot' = NumeratorClient_setProtocol iprot' oprot' c"

definition NumeratorClient_getInputProtocol :: "client_object \<Rightarrow> nat" where
  "NumeratorClient_getInputProtocol c = piprot c"

definition NumeratorClient_getOutputProtocol :: "client_object \<Rightarrow> nat" where
  "NumeratorClient_getOutputProtocol c = poprot c"

text \<open>The same members and methods of \<open>NumeratorConcurrentClient\<close>, which adds \<open>sync_\<close>.\<close>

record 's concurrent_client_object = client_object +
  sync :: 's

definition NumeratorConcurrentClient_setProtocol ::
  "nat \<Rightarrow> nat \<Rightarrow> 's concurrent_client_object \<Rightarrow> 's concurrent_client_object" where
  "NumeratorConcurrentClient_setProtocol iprot' oprot' c =
     c\<lparr>piprot := iprot', poprot := oprot', iprot := iprot', oprot := oprot'\<rparr>"

definition NumeratorConcurrentClient_setProtocol_one ::
  "nat \<Rightarrow> 's concurrent_client_object \<Rightarrow> 's concurrent_client_object" where
  "NumeratorConcurrentClient_setProtocol_one prot c = NumeratorConcurrentClient_setProtocol prot prot c"

definition NumeratorConcurrentClient_new ::
  "'s concurrent_client_object \<Rightarrow> nat \<Rightarrow> 's concurrent_client_object" where
  "NumeratorConcurrentClient_new c prot = NumeratorConcurrentClient_setProtocol_one prot c"

definition NumeratorConcurrentClient_new_two ::
  "'s concurrent_client_object \<Rightarrow> nat \<Rightarrow> nat \<Rightarrow> 's concurrent_client_object" where
  "NumeratorConcurrentClient_new_two c iprot' oprot' = NumeratorConcurrentClient_setProtocol iprot' oprot' c"

definition NumeratorConcurrentClient_getInputProtocol :: "'s concurrent_client_object \<Rightarrow> nat" where
  "NumeratorConcurrentClient_getInputProtocol c = piprot c"

definition NumeratorConcurrentClient_getOutputProtocol :: "'s concurrent_client_object \<Rightarrow> nat" where
  "NumeratorConcurrentClient_getOutputProtocol c = poprot c"

section \<open>Structs that point to the caller's objects\<close>

type_synonym queries = "nat \<Rightarrow> query"

record query_pargs =
  pa_request :: nat

definition query_pargs_write :: "queries \<Rightarrow> query_pargs \<Rightarrow> wcall list" where
  "query_pargs_write Q this =
     [WStructBegin ''Numerator_query_pargs'', WFieldBegin ''request'' T_STRUCT 1] @
     Query_write (Q (pa_request this)) @ [WFieldEnd, WFieldStop, WStructEnd]"

record query_presult =
  pr_success :: nat
  pr_exc :: numerator_exception
  pr_isset_success :: bool
  pr_isset_exc :: bool

definition query_presult_new :: "nat \<Rightarrow> query_presult" where
  "query_presult_new success =
     \<lparr>pr_success = success, pr_exc = NumeratorException_new, pr_isset_success = False, pr_isset_exc = False\<rparr>"

definition query_presult_field ::
  "'p tprotocol \<Rightarrow> ttype \<Rightarrow> 16 word \<Rightarrow> query_presult \<times> queries \<Rightarrow> ('p, query_presult \<times> queries) rd" where
  "query_presult_field P ftype fid sQ =
     (case sQ of (s, Q) \<Rightarrow>
        if fid = 0 then
          (if ftype = T_STRUCT
           then bind_rd (Query_read P (Q (pr_success s)))
                  (\<lambda>q. return (s\<lparr>pr_isset_success := True\<rparr>, Q(pr_success s := q)))
           else skip_field P ftype sQ)
        else if fid = 1 then
          (if ftype = T_STRUCT
           then bind_rd (NumeratorException_read P (pr_exc s))
                  (\<lambda>x. return (s\<lparr>pr_exc := x, pr_isset_exc := True\<rparr>, Q))
           else skip_field P ftype sQ)
        else skip_field P ftype sQ)"

definition query_presult_read ::
  "'p tprotocol \<Rightarrow> query_presult \<times> queries \<Rightarrow> ('p, query_presult \<times> queries) rd" where
  "query_presult_read P = read_struct P (query_presult_field P)"

section \<open>The methods on objects\<close>

text \<open>A computation on the state of one protocol, done on the object at address \<open>a\<close>.\<close>

definition writes_at :: "nat \<Rightarrow> ('p \<Rightarrow> texc + 'p) \<Rightarrow> 'p protocols \<Rightarrow> texc + 'p protocols" where
  "writes_at a send \<sigma> = map_sum id (\<lambda>p. \<sigma>(a := p)) (send (\<sigma> a))"

definition reads_at :: "nat \<Rightarrow> ('p, 'a) rd \<Rightarrow> ('p protocols, 'a) rd" where
  "reads_at a m \<sigma> = map_option (map_sum id (\<lambda>(x, p). (x, \<sigma>(a := p)))) (m (\<sigma> a))"

definition send_query_object ::
  "'p tprotocol \<Rightarrow> client_object \<Rightarrow> nat \<Rightarrow> queries \<Rightarrow> 'p protocols \<Rightarrow> texc + 'p protocols" where
  "send_query_object P c request Q =
     writes_at (oprot c)
       (emit_all P (write_message ''query'' T_CALL 0 (query_pargs_write Q \<lparr>pa_request = request\<rparr>)))"

definition recv_query_object ::
  "'p tprotocol \<Rightarrow> client_object \<Rightarrow> nat \<Rightarrow> queries \<Rightarrow> ('p protocols, queries) rd" where
  "recv_query_object P c ret Q =
     reads_at (iprot c)
       (then_rd (recv_header P ''query'')
         (bind_rd (read_message P (query_presult_read P (query_presult_new ret, Q)))
           (\<lambda>(result, Q').
              if pr_isset_success result then return Q'
              else if pr_isset_exc result then throw (Declared (pr_exc result))
              else throw (TApplicationException MISSING_RESULT ''query failed: unknown result''))))"

definition query_object ::
  "'p tprotocol \<Rightarrow> client_object \<Rightarrow> nat \<Rightarrow> nat \<Rightarrow> queries \<Rightarrow> ('p protocols, queries) rd" where
  "query_object P c ret request Q =
     send_recv (send_query_object P c request Q) (recv_query_object P c ret Q)"

definition ping_object :: "'p tprotocol \<Rightarrow> client_object \<Rightarrow> ('p protocols, unit) rd" where
  "ping_object P c =
     send_recv (writes_at (oprot c) (NumeratorClient_send_ping P)) (reads_at (iprot c) (NumeratorClient_recv_ping P))"

definition disable_s2i_object :: "'p tprotocol \<Rightarrow> client_object \<Rightarrow> ('p protocols, unit) rd" where
  "disable_s2i_object P c =
     send_recv (writes_at (oprot c) (NumeratorClient_send_disable_s2i P))
       (reads_at (iprot c) (NumeratorClient_recv_disable_s2i P))"

definition enable_s2i_object :: "'p tprotocol \<Rightarrow> client_object \<Rightarrow> ('p protocols, unit) rd" where
  "enable_s2i_object P c =
     send_recv (writes_at (oprot c) (NumeratorClient_send_enable_s2i P))
       (reads_at (iprot c) (NumeratorClient_recv_enable_s2i P))"

section \<open>The reader through a pointer\<close>

text \<open>A reader of one representation against the same reader of another.\<close>

fun map_res :: "('a \<Rightarrow> 'b) \<Rightarrow> texc + 'a \<times> 'p \<Rightarrow> texc + 'b \<times> 'p" where
  "map_res g (Inl e) = Inl e"
| "map_res g (Inr (x, p)) = Inr (g x, p)"

definition map_rd :: "('a \<Rightarrow> 'b) \<Rightarrow> ('p, 'a) rd \<Rightarrow> ('p, 'b) rd" where
  "map_rd g m p = map_option (map_res g) (m p)"

lemma map_rd_return [simp]: "map_rd g (return x) = return (g x)"
  and map_rd_throw [simp]: "map_rd g (throw e) = throw e"
  by (simp_all add: fun_eq_iff map_rd_def return_def throw_def)

lemma map_rd_bind [simp]: "map_rd g (bind_rd m k) = bind_rd m (\<lambda>x. map_rd g (k x))"
  by (simp add: fun_eq_iff map_rd_def bind_rd_def split: option.split sum.split)

lemma bind_map_rd [simp]: "bind_rd (map_rd g m) k = bind_rd m (\<lambda>x. k (g x))"
  by (simp add: fun_eq_iff map_rd_def bind_rd_def split: option.split sum.split)

lemma map_rd_then [simp]: "map_rd g (then_rd m k) = then_rd m (map_rd g k)"
  by (simp add: then_rd_def)

lemma map_rd_skip [simp]: "map_rd g (skip_field P ftype s) = skip_field P ftype (g s)"
  by (simp add: skip_field_def)

text \<open>Induction over the loop of a reader that returns.\<close>

lemma read_fields_returns [consumes 1, case_names stop begin_fails field_fails end_fails field]:
  assumes "read_fields P field s p = Some r"
    and "\<And>s p fid p1. readFieldBegin P p = Inr ((T_STOP, fid), p1) \<Longrightarrow> Q s p (Inr (s, p1))"
    and "\<And>s p e. readFieldBegin P p = Inl e \<Longrightarrow> Q s p (Inl e)"
    and "\<And>s p ftype fid p1 e. readFieldBegin P p = Inr ((ftype, fid), p1) \<Longrightarrow> ftype \<noteq> T_STOP \<Longrightarrow>
           field ftype fid s p1 = Some (Inl e) \<Longrightarrow> Q s p (Inl e)"
    and "\<And>s p ftype fid p1 s' p2 e. readFieldBegin P p = Inr ((ftype, fid), p1) \<Longrightarrow> ftype \<noteq> T_STOP \<Longrightarrow>
           field ftype fid s p1 = Some (Inr (s', p2)) \<Longrightarrow> readFieldEnd P p2 = Inl e \<Longrightarrow> Q s p (Inl e)"
    and "\<And>s p ftype fid p1 s' p2 p3 r. readFieldBegin P p = Inr ((ftype, fid), p1) \<Longrightarrow> ftype \<noteq> T_STOP \<Longrightarrow>
           field ftype fid s p1 = Some (Inr (s', p2)) \<Longrightarrow> readFieldEnd P p2 = Inr ((), p3) \<Longrightarrow>
           Q s' p3 r \<Longrightarrow> Q s p r"
  shows "Q s p r"
proof -
  have "case (((P, field), s), p) of (((P', field'), s), p) \<Rightarrow> P' = P \<longrightarrow> field' = field \<longrightarrow> Q s p r"
  proof (rule read_fields.raw_induct [OF _ assms(1)], clarsimp, goal_cases)
    case (1 rf s p r)
    then show ?case
      using assms(2-6) by (auto split: sum.splits option.splits if_splits prod.splits)
  qed
  then show ?thesis by simp
qed

text \<open>Readers that commute on every field commute.\<close>

lemma read_fields_map_left:
  assumes "read_fields P field s p = Some r"
    and "\<And>ftype fid s. field' ftype fid (g s) = map_rd g (field ftype fid s)"
  shows "read_fields P field' (g s) p = Some (map_res g r)"
  using assms(1)
  by (induction rule: read_fields_returns) (subst read_fields.simps, simp add: assms(2) map_rd_def)+

lemma read_fields_map_right:
  assumes "read_fields P field' (g s) p = Some r"
    and "\<And>ftype fid s. field' ftype fid (g s) = map_rd g (field ftype fid s)"
  shows "read_fields P field s p \<noteq> None"
proof -
  have "t = g s \<Longrightarrow> read_fields P field s p \<noteq> None" if "read_fields P field' t p = Some r" for t s
    using that
  proof (induction arbitrary: s rule: read_fields_returns)
    case (field t p ftype fid p1 t' p2 p3 r)
    then obtain s' where "field ftype fid s p1 = Some (Inr (s', p2))" "t' = g s'"
      by (auto simp: assms(2) map_rd_def elim: map_res.elims)
    with field show ?case by (subst read_fields.simps) simp
  qed (subst read_fields.simps, auto simp: assms(2) map_rd_def elim: map_res.elims)+
  with assms(1) show ?thesis by blast
qed

lemma read_fields_map:
  assumes "\<And>ftype fid s. field' ftype fid (g s) = map_rd g (field ftype fid s)"
  shows "read_fields P field' (g s) = map_rd g (read_fields P field s)"
proof
  fix p
  show "read_fields P field' (g s) p = map_rd g (read_fields P field s) p"
  proof (cases "read_fields P field s p")
    case None
    then have "read_fields P field' (g s) p = None"
      using read_fields_map_right [of P field' g s p _ field] assms by fastforce
    with None show ?thesis by (simp add: map_rd_def)
  next
    case (Some r)
    then show ?thesis using read_fields_map_left [of P field s p r field' g] assms by (simp add: map_rd_def)
  qed
qed

lemma read_struct_map:
  assumes "\<And>ftype fid s. field' ftype fid (g s) = map_rd g (field ftype fid s)"
  shows "read_struct P field' (g s) = map_rd g (read_struct P field s)"
  by (simp add: read_struct_def read_fields_map [of field' g field, OF assms])

text \<open>The result struct of Thrift\_Service, with its response moved out to the address \<open>a\<close>.\<close>

definition point :: "nat \<Rightarrow> queries \<Rightarrow> query_result \<Rightarrow> query_presult \<times> queries" where
  "point a Q r =
     (\<lparr>pr_success = a, pr_exc = r_exc r, pr_isset_success = r_isset_success r, pr_isset_exc = r_isset_exc r\<rparr>,
      Q(a := r_success r))"

lemma presult_field_point:
  "query_presult_field P ftype fid (point a Q r) = map_rd (point a Q) (query_result_field P ftype fid r)"
  by (simp add: query_presult_field_def query_result_field_def) (simp add: point_def)

lemma presult_read_point:
  "query_presult_read P (point a Q r) = map_rd (point a Q) (Numerator_query_presult_read P r)"
  unfolding query_presult_read_def Numerator_query_presult_read_def
  by (rule read_struct_map) (rule presult_field_point)

lemma presult_new_point:
  "(query_presult_new a, Q) = point a Q (Numerator_query_result_new\<lparr>r_success := Q a\<rparr>)"
  by (simp add: query_presult_new_def point_def Numerator_query_result_new_def)

text \<open>The methods on objects as the methods on values.\<close>

lemma pargs_write: "query_pargs_write Q \<lparr>pa_request = request\<rparr> = Numerator_query_pargs_write (Q request)"
  by (simp add: query_pargs_write_def Numerator_query_pargs_write_def)

lemma send_query_object:
  "send_query_object P c request Q = writes_at (oprot c) (NumeratorClient_send_query P (Q request))"
  by (simp add: send_query_object_def pargs_write NumeratorClient_send_query_def)

lemma read_message_map: "read_message P (map_rd g m) = map_rd g (read_message P m)"
  by (simp add: read_message_def)

lemma recv_query_object:
  "recv_query_object P c ret Q =
     reads_at (iprot c) (map_rd (\<lambda>q. Q(ret := q)) (NumeratorClient_recv_query P (Q ret)))"
  unfolding recv_query_object_def NumeratorClient_recv_query_def presult_new_point presult_read_point
  by (simp add: read_message_map point_def if_distrib [of "map_rd _"] cong: if_cong)

section \<open>Properties\<close>

text \<open>
  C40. A client does what the functions of Thrift\_Service say of values, on the objects that it
  was given.  \<open>query\<close> sends the caller's request on the output protocol, reads the reply from
  the input protocol through the pointer to the caller's response, and changes no other object,
  also when request and response are the same object.  With one protocol for both directions
  that is \<open>NumeratorClient_query\<close> on the state of this protocol.
\<close>

theorem query_on_objects:
  "query_object P (NumeratorClient_new c a) ret request Q \<sigma> =
     (case NumeratorClient_query P (Q ret) (Q request) (\<sigma> a) of
        None \<Rightarrow> None
      | Some (Inl e) \<Rightarrow> Some (Inl e)
      | Some (Inr (response, p)) \<Rightarrow> Some (Inr (Q(ret := response), \<sigma>(a := p)))) \<and>
   query_object P (NumeratorClient_new_two c a b) ret request Q \<sigma> =
     (case NumeratorClient_send_query P (Q request) (\<sigma> b) of
        Inl e \<Rightarrow> Some (Inl e)
      | Inr p \<Rightarrow>
          (case NumeratorClient_recv_query P (Q ret) ((\<sigma>(b := p)) a) of
             None \<Rightarrow> None
           | Some (Inl e) \<Rightarrow> Some (Inl e)
           | Some (Inr (response, p')) \<Rightarrow> Some (Inr (Q(ret := response), \<sigma>(b := p, a := p')))))"
  unfolding query_object_def send_query_object recv_query_object NumeratorClient_query_def
  by (auto simp: send_recv_def writes_at_def reads_at_def map_rd_def NumeratorClient_new_def
      NumeratorClient_new_two_def NumeratorClient_setProtocol_one_def NumeratorClient_setProtocol_def
      split: sum.split option.split)

end
