(* ===== verification/Spec2Isabelle.thy ===== *)
theory Spec2Isabelle
  imports Progress Switching Deployment Concurrent_Client Service_Glue Query_Values Signals Tools End_To_End Lifetimes
    Client_Objects
begin

text \<open>
  Numerator: a network service that gives strings numbers and numbers their strings.

  \<^bold>\<open>The program.\<close>  The server (numerator.cpp) answers Thrift calls on worker threads.  Its
  handler keeps two storages: an index from strings to ids in memory, which is a JudySL array
  (memory\_storage.cpp), and a table from ids to strings on disk, which is a LevelDB database
  (disk\_storage.cpp).  A string-to-id query looks every string up in the index; a string that
  is not there gets the value of a global counter, and all new pairs of a request go to the
  table in one batch before it is answered.  An id-to-string query reads the table only.  At
  start-up the index is rebuilt from the table and the counter is set above its greatest id,
  unless the option \<open>-S\<close> disables string-to-id queries; two further calls switch them off and
  on while the server runs.  A signal thread stops the server.  numexport and numimport copy a
  table to a file and back, numeratorcli asks a server for the lines of a file, and gen-cpp/
  holds the client, the processor and the data types that the Thrift compiler made of
  numerator.thrift.

  \<^bold>\<open>Conventions.\<close>  A class is a record, or a record argument returned changed; a method is a
  function of the same name with a prefix (\<open>ms_\<close>, \<open>ds_\<close>, \<open>Query_\<close>, ...).  Every \<open>THROW_EXC\<close> is a
  constructor of \<open>exc\<close>, every execution that leaves the C++ standard a value of \<open>ub\<close>; an
  operation returns one of them or its result, beside the changed object.  Integers have the
  width of the C++ type: \<open>num_id\<close> is a 64-bit word read as signed, \<open>failure_idx\<close> and the sizes
  in a dump are 32-bit words, loop counters of type \<open>size_t\<close> are 64-bit words.  An object or a
  variable that the code leaves uninitialised is an argument, named \<open>junk\<close> where it is an id.
  A loop that need not end is a \<open>partial_function (option)\<close>; \<open>None\<close> means that it never returns.

  \<^bold>\<open>Theories.\<close>
  \<^item> Prelude: the names of the C++ types, byte representations, decimal output, C strings.
  \<^item> Exceptions (exc.hpp): \<open>Exc\<close>, its 512-byte buffer and the file name it cuts out of a path.
  \<^item> Judy\_Array, Level\_DB, Boost\_Lib, Thrift\_Protocol: the library interfaces, see below.
    Std\_Stream: \<open>std::ifstream\<close> with its state bits, \<open>read\<close> and \<open>getline\<close>.  Getopt: \<open>getopt\<close> and
    \<open>getopt_long\<close> as their manual describes them.
  \<^item> Memory\_Storage (memory\_storage.hpp and .cpp): \<open>find\<close>, \<open>insert\<close>, \<open>unload\<close>.  Locale \<open>id_index\<close>,
    interpreted as \<open>mem\<close>.
  \<^item> Disk\_Storage (disk\_storage.hpp and .cpp): \<open>init\<close>, \<open>write\<close>, \<open>load_in_memory\<close>, \<open>lookup\<close>.
    Locale \<open>id_store\<close>, interpreted as \<open>disk\<close>.
  \<^item> Dump\_Restore (disk\_storage.cpp): \<open>dump\<close> and \<open>restore\<close>, text and binary.
  \<^item> Lifetimes (disk\_storage.hpp, memory\_storage.hpp): constructors and destructors; the object
    with its pointers into a heap, of which the object of Disk\_Storage is the abstraction.
  \<^item> Interning: the abstract specification on maps.  \<open>coherent\<close> relates index, table and counter;
    \<open>intern\<close> is the effect of one batch of strings.
  \<^item> Handler (numerator.cpp): \<open>NumeratorHandler\<close>.  Locale \<open>numerator_service\<close> joins the two
    storage contracts and carries the proofs of its operations; interpreted as \<open>svc\<close>.
  \<^item> Server (numerator.cpp): start-up, one request (\<open>serve\<close>), runs of answered requests (\<open>run\<close>),
    the invariant \<open>server_inv\<close>.
  \<^item> Interleaving, Progress, Shared\_Ids, Switching (numerator.cpp): the handler under threads, as
    a step relation on the mutex, the flag and the accesses to the storages; that it makes
    progress; what its clients can rely on, without and with switching.
  \<^item> Command\_Line, Logging, Signals (numerator.cpp, logger\_initializer.hpp, signal\_handler.cpp):
    option tables, usage, options, \<open>is_dir\<close>, the calls of the logging library and its flusher
    thread, the signal thread, the whole process.
  \<^item> Tools (numexport.cpp, numimport.cpp) and Cli (numeratorcli.cpp): the other three programs.
  \<^item> Query\_Types, Query\_Values, Thrift\_Types (gen-cpp/numerator\_types.h and .cpp): the data, its
    copies, comparison and printing, its reading and writing.  Locale \<open>codec\<close>, interpreted for
    both structs.
  \<^item> Thrift\_Service, Concurrent\_Client, Service\_Glue (gen-cpp/Numerator.h and .cpp, the server
    skeleton): the structs of the calls, the two clients, the processor, factories, multiface.
    Locale \<open>rpc\<close> is one call over the wire, interpreted for the four methods.  Client\_Objects:
    the client with the protocols it holds and its parameters by reference, over a store.
  \<^item> Rpc\_Server: client, wire, processor and handler composed.  Deployment (numerator.cpp, the
    server skeleton): how the two servers are put together, and a server from its command line
    to an answer.  End\_To\_End (numeratorcli.cpp, numerator.cpp): runs of the command line client
    against a server, whose exchange over the wire is \<open>served_client\<close>.
\<close>

text \<open>
  \<^bold>\<open>What is shown.\<close>
  \<^item> Ids.  On a good server a string-to-id query is answered with one id per string, old strings
    keep theirs, and the table has an entry for every answered id (C1); the ids
    lead back to the strings (C2, over the wire C9); they never
    change while the server runs (C3), nor at a restart (C8,
    C5), nor when the queries are switched off and on again
    (C22).  The hypotheses name what it takes: libraries that behave
    (below), strings without NUL for the way back, a counter below its maximum, a table without
    duplicates for stability.
  \<^item> Durability.  A server that is killed at any moment, with all its threads at work, leaves a
    database on which the next one starts as a good server, and no reply that was ever given
    becomes untrue (C7).
  \<^item> The wire.  A query of the generated client, sent through the generated processor, is a call
    of the handler and returns its outcome (C10), also when several threads share
    the client and the replies come in any order (C16).  Responses fit the
    protocol (C17); what \<open>write\<close> sends \<open>read\<close> gives back, whatever unknown
    fields stand between (C36, C37).  With the parameters
    by reference, possibly to one object, a client does the same (C40).
  \<^item> Threads.  Concurrent queries are served as if one after the other (C11),
    the ids they get agree (C14), every run ends and none gets stuck
    (C15); whatever queries and switching do to each other, no entry is lost and
    every answered id and string stays true (C12).
  \<^item> Errors.  Disabled queries are refused and change nothing (C23); a failed write
    ends the process instead of being answered (C25); a signal, and nothing
    else, ends a process that serves (C24).
  \<^item> Command lines.  However the options are spelled, the server gets exactly those
    (C39), and a server deployed with them on a database answers a client over
    the wire with what is stored there (C13).
  \<^item> Files.  Dump and restore, export and import are inverse where the format allows it
    (C26, C27, C18), and \<open>restore\<close> returns on every
    readable file (C29).  The command line client asks for every line once, in
    batches of the given size (C19), and reports success only when it did so
    (C38).  From file to server and back, a run that prints ids and a run on its
    output are inverse (C4).
  \<^item> Memory: whatever becomes of a \<open>DiskStorage\<close>, its destructor frees each of its blocks once and
    no block that is in use (C28).
  \<^item> Storages and utilities: \<open>ds_write_lookup_roundtrip\<close>, \<open>ds_lookup_correct\<close>,
    \<open>ms_find_correct\<close>,
    C35.
  \<^item> Where the code does not do what it means to: ids are used twice after a start with \<open>-S\<close>
    followed by \<open>enable_s2i\<close> (C6), or when \<open>disable_s2i\<close> meets
    a running query (C20); strings that agree up to a NUL share an id
    (C34); the end status of an iteration is never looked at
    (C32); the cache size overflows (C33); the binary dump
    of an empty table restores as one junk entry (C31); a read error makes
    \<open>restore\<close> loop for ever (C30); tabs and line breaks are not escaped in
    the text dump (C27 and \<open>text_dump_newline\<close>); the client counts with an
    uninitialised variable (C21); two numerators behind one multiface add up
    their ids and an empty multiface reads out of range (\<open>multiface_two_numerators\<close>,
    \<open>multiface_in_order\<close>).

  The lemmas below the properties are grouped the same way.  In each storage: an abstraction
  function (\<open>ms_view\<close>, \<open>ds_view\<close>), one lemma per operation in the form of the locale's laws, and
  one that the operation returns when the library reports no error.  In Handler and Server: each
  operation simulates \<open>intern\<close> on the abstraction and keeps the invariant.  In the Thrift
  theories: \<open>reads\<close> and \<open>fails\<close>, rules that compose readers over the calls they consume.  In
  Interleaving: the mutex invariant, and \<open>lin_inv\<close>, which relates a state of the threads to a
  sequential run.  In Switching: \<open>safe\<close>, the invariant of every schedule, on the table with the
  pairs that the running query has promised but not yet written.  In Getopt: what each spelling
  of an option gives.

  \<^bold>\<open>Parameters and hypotheses.\<close>  Code that is not part of the repository is an argument of the
  definitions, with its documented behaviour as a named hypothesis, and an instance that meets
  it for the witnesses:
  \<^item> the Judy array, \<open>judy\<close>: \<open>judy_ok\<close>; \<open>judy_no_error\<close> if memory never runs out (\<open>alist_judy\<close>);
  \<^item> LevelDB, \<open>leveldb\<close>: \<open>leveldb_ok\<close>; \<open>leveldb_no_error\<close> for a healthy disk (\<open>alist_db\<close>, \<open>dir_db\<close>).
    \<open>libs_ok\<close> and \<open>libs_no_error\<close> join these with the Judy ones;
  \<^item> \<open>boost::split\<close> and \<open>lexical_cast\<close>, \<open>boost\<close>: \<open>boost_ok\<close> (\<open>ref_boost\<close>);
  \<^item> a Thrift protocol with its transport, \<open>tprotocol\<close>: \<open>protocol_ok\<close>; \<open>protocol_no_error\<close> for a
    connection that is up (\<open>tape_protocol\<close>);
  \<^item> the synchronisation of the shared client, \<open>sync_info\<close>: \<open>sync_ok\<close>, \<open>sync_alive\<close> (\<open>demo_sync\<close>);
  \<^item> what \<open>stat\<close>, \<open>pthread_create\<close>, \<open>sigwait\<close>, the file system and the connection
    of the client's socket return: plain arguments.

  \<^bold>\<open>Bounds.\<close>  No definition of the program takes fuel.  Loops over a stream end because its size, the
  bytes still to be read, goes down; the batch loops and the multiface loop have measures; the
  readers, the binary restore, the receive loop of the shared client and the signal loop are
  partial functions, and the theorems about them state that they return.  \<open>skip\<close> is assumed to
  pass values nested up to \<open>skip_depth\<close> (32) levels, half the library's limit; the values of this
  service are nested a few levels deep.  Id-to-string theorems ask for fewer than \<open>2^31\<close> ids, the width of
  a failure index.

  \<^bold>\<open>Not modelled.\<close>
  \<^item> The byte counts that readers and writers return, the recursion tracker of the protocol and
    the event handler of the processor, which is null in this program: nobody reads them.
  \<^item> The empty destructors of the generated structs, the counts of shared pointers, and memory
    exhaustion (but for the \<open>reserve\<close> of the client, which can be asked for any size).
  \<^item> Data races: a step of a thread is one access, accesses are atomic and in order.
  \<^item> The thread pool server, sockets, the inside of the logging library; error messages.
  \<^item> \<open>operator<\<close> of the structs, which is declared and never defined; what an exception leaves in
    the protocols and in a half-read response.
  \<^item> numerator\_constants (an empty class), the Python bindings and scripts, the build files.
\<close>

end
